theory Spec2Isabelle
  imports Main "HOL-Library.Sublist" "HOL-Library.Finite_Map"
begin

section \<open>Common vocabulary\<close>

text \<open>
  Go strings are byte sequences; they are modelled as \<^typ>\<open>string\<close> (a list of 8-bit
  characters). The three bytes the exec grammar looks at are ASCII, and no byte of a
  multi-byte UTF-8 sequence (nor an invalid byte, which decodes to U+FFFD) is ASCII, so
  walking the bytes visits the separators and quotes exactly where Go's walk over the
  runes does.
\<close>

abbreviation dquote :: char where "dquote \<equiv> CHR 0x22"
abbreviation squote :: char where "squote \<equiv> CHR 0x27"
abbreviation colon :: char where "colon \<equiv> CHR 0x3A"
abbreviation space :: char where "space \<equiv> CHR 0x20"
abbreviation backslash :: char where "backslash \<equiv> CHR 0x5C"

text \<open>
  What a Go call can do: panic (index out of range, an explicit \<open>panic\<close>), return a
  non-nil error, or return a value.
\<close>

datatype ('e, 'a) outcome = Panics string | Fails 'e | Returns 'a

text \<open>
  A Go error value: \<open>errors.New(msg)\<close>, or an error wrapped with a context message
  (\<open>fmt.Errorf("msg: %w", err)\<close>, \<open>errors.Wrap(err, "msg")\<close>). \<open>Error\<close> is the text its
  \<open>Error()\<close> method returns.
\<close>

datatype error = New string | Wrapped string error

fun Error :: "error \<Rightarrow> string" where
  "Error (New msg) = msg"
| "Error (Wrapped msg err) = msg @ '': '' @ Error err"

section \<open>The URL message\<close>

text \<open>
  Modelled from the spec: the declaration of the URL message and of its Kind and Protocol
  enumerations is not among the sources (only \<open>parseExec\<close> and the handlers that read the
  fields are). The fields are those the spec's data model lists; the enumerations carry
  the members the spec and the sources name, and one more for every other number.
\<close>

datatype Kind = Kind_Synchronization | Kind_Forwarding | Kind_Other nat

datatype Protocol = Protocol_Local | Protocol_SSH | Protocol_Exec | Protocol_Other nat

record URL =
  Kind :: Kind
  Protocol :: Protocol
  Host :: string
  Path :: string
  Environment :: "(string, string) fmap"
  Parameters :: "(string, string) fmap"

section \<open>The exec URL parser\<close>

definition execURLPrefix :: string where
  "execURLPrefix = ''exec:''"

text \<open>\<open>strings.ToLower\<close> on the ASCII letters; every other byte is left as it is.\<close>

definition toLowerByte :: "char \<Rightarrow> char" where
  "toLowerByte c =
     (case map_of (zip ''ABCDEFGHIJKLMNOPQRSTUVWXYZ'' ''abcdefghijklmnopqrstuvwxyz'') c of
        None \<Rightarrow> c
      | Some l \<Rightarrow> l)"

definition ToLower :: "string \<Rightarrow> string" where
  "ToLower s = map toLowerByte s"

definition HasPrefix :: "string \<Rightarrow> string \<Rightarrow> bool" where
  "HasPrefix s p = (length p \<le> length s \<and> take (length p) s = p)"

definition isExecURL :: "string \<Rightarrow> bool" where
  "isExecURL raw = HasPrefix (ToLower raw) execURLPrefix"

text \<open>
  The closure handed to \<open>strings.FieldsFunc\<close> captures two variables, \<open>quoted\<close> and
  \<open>quoteMark\<close>, and updates them at every rune. The state is passed explicitly: the
  closure takes the pair and the rune, and returns its verdict with the new pair.
\<close>

type_synonym quote_state = "bool \<times> char"

definition splitter :: "quote_state \<Rightarrow> char \<Rightarrow> bool \<times> quote_state" where
  "splitter st r =
     (let quoted = fst st; quoteMark = snd st;
          st' = (if quoted \<and> r = quoteMark then (False, quoteMark)
                 else if \<not> quoted \<and> (r = dquote \<or> r = squote) then (True, r)
                 else (quoted, quoteMark))
      in (\<not> fst st' \<and> r = colon, st'))"

text \<open>
  \<open>strings.FieldsFunc\<close> walks the string once, from left to right, and calls the
  predicate once at each rune. A field starts at the first rune the predicate rejects and
  ends before the next rune it accepts, or at the end of the string; \<open>cur\<close> holds the
  field that has started (empty when none has: a started field holds at least one rune).
\<close>

fun FieldsFunc_loop ::
  "('s \<Rightarrow> char \<Rightarrow> bool \<times> 's) \<Rightarrow> 's \<Rightarrow> string \<Rightarrow> string \<Rightarrow> string list" where
  "FieldsFunc_loop f st cur [] = (if cur \<noteq> [] then [cur] else [])"
| "FieldsFunc_loop f st cur (r # rs) =
     (let (sep, st') = f st r in
      if sep then (if cur \<noteq> [] then cur # FieldsFunc_loop f st' [] rs
                   else FieldsFunc_loop f st' [] rs)
      else FieldsFunc_loop f st' (cur @ [r]) rs)"

definition FieldsFunc :: "string \<Rightarrow> ('s \<Rightarrow> char \<Rightarrow> bool \<times> 's) \<Rightarrow> 's \<Rightarrow> string list" where
  "FieldsFunc s f st0 = FieldsFunc_loop f st0 [] s"

text \<open>
  The block of \<open>parseExec\<close> that strips the quotes off the command: when the command
  has at least two bytes and its first and last bytes are the same quote character, the
  slice \<open>command[1:len(command)-1]\<close> replaces it.
\<close>

definition stripQuotes :: "string \<Rightarrow> string" where
  "stripQuotes command =
     (if length command \<ge> 2 \<and>
         ((command ! 0 = squote \<and> command ! (length command - 1) = squote) \<or>
          (command ! 0 = dquote \<and> command ! (length command - 1) = dquote))
      then take (length command - 1 - 1) (drop 1 command)
      else command)"

text \<open>
  \<open>parseExec\<close>. The slice \<open>raw[len(execURLPrefix):]\<close> panics on a string shorter than
  the prefix. The URL literal sets four fields; the two maps stay nil, that is, empty.
\<close>

definition parseExec :: "string \<Rightarrow> Kind \<Rightarrow> (error, URL) outcome" where
  "parseExec raw kind =
     (if length raw < length execURLPrefix then Panics ''slice bounds out of range''
      else
        let raw' = drop (length execURLPrefix) raw;
            split = FieldsFunc raw' splitter (False, dquote)
        in if length split = 0 then Fails (New ''no command or path specified'')
           else if length split > 2 then Fails (New ''too many separators'')
           else
             let command = stripQuotes (split ! 0);
                 path = (if length split = 2 then split ! 1 else [])
             in Returns \<lparr>Kind = kind, Protocol = Protocol_Exec, Host = command, Path = path,
                          Environment = fmempty, Parameters = fmempty\<rparr>)"

text \<open>
  Two readings of the closure over a string, used to state where it splits: the captured
  variables after it has been called on every byte, and whether it accepted none of them.
\<close>

fun closure_state :: "('s \<Rightarrow> char \<Rightarrow> bool \<times> 's) \<Rightarrow> 's \<Rightarrow> string \<Rightarrow> 's" where
  "closure_state f st [] = st"
| "closure_state f st (r # rs) = closure_state f (snd (f st r)) rs"

fun never_splits :: "('s \<Rightarrow> char \<Rightarrow> bool \<times> 's) \<Rightarrow> 's \<Rightarrow> string \<Rightarrow> bool" where
  "never_splits f st [] = True"
| "never_splits f st (r # rs) = (\<not> fst (f st r) \<and> never_splits f (snd (f st r)) rs)"

text \<open>
  The splitting rule in the spec's words, as a second definition to compare the code
  with: the remainder is cut at every colon that is not inside a quoted span. A quoted
  span opens at a quote character, single or double, met outside any span, and closes at
  the next occurrence of the same character; a span that is never closed runs to the end
  of the string. The fields are the non-empty pieces between the cuts. This definition
  keeps no toggle: at an opening quote it looks ahead for the closing one.
\<close>

function spec_fields_from :: "string \<Rightarrow> string \<Rightarrow> string list" where
  "spec_fields_from piece [] = (if piece = [] then [] else [piece])"
| "spec_fields_from piece (c # s) =
     (if c = colon then (if piece = [] then [] else [piece]) @ spec_fields_from [] s
      else if c = dquote \<or> c = squote then
        (case dropWhile (\<lambda>x. x \<noteq> c) s of
           [] \<Rightarrow> [piece @ c # s]
         | closing # rest \<Rightarrow>
             spec_fields_from (piece @ c # takeWhile (\<lambda>x. x \<noteq> c) s @ [closing]) rest)
      else spec_fields_from (piece @ [c]) s)"
  by pat_completeness auto
termination
proof (relation "measure (\<lambda>(piece, s). length s)")
  fix piece :: string and c :: char and s closing rest
  assume "dropWhile (\<lambda>x. x \<noteq> c) s = closing # rest"
  then have "length (closing # rest) \<le> length s"
    by (metis length_dropWhile_le)
  then show "((piece @ c # takeWhile (\<lambda>x. x \<noteq> c) s @ [closing], rest), piece, c # s)
               \<in> measure (\<lambda>(piece, s). length s)"
    by simp
qed auto

definition spec_fields :: "string \<Rightarrow> string list" where
  "spec_fields s = spec_fields_from [] s"

section \<open>The exec transport\<close>

text \<open>
  The standard-library string functions the transport calls. \<open>strings.Index\<close> is the
  position of the first occurrence of the substring, or \<open>-1\<close>; \<open>strings.Contains\<close> is
  \<open>Index(s, substr) >= 0\<close>; \<open>strings.Split\<close> is taken at a one-byte separator, as the
  transport calls it, and keeps the empty pieces.
\<close>

fun Index :: "string \<Rightarrow> string \<Rightarrow> int" where
  "Index [] substr = (if substr = [] then 0 else - 1)"
| "Index (c # s) substr =
     (if HasPrefix (c # s) substr then 0
      else let i = Index s substr in if i < 0 then - 1 else i + 1)"

definition Contains :: "string \<Rightarrow> string \<Rightarrow> bool" where
  "Contains s substr = (Index s substr \<ge> 0)"

fun Split_loop :: "char \<Rightarrow> string \<Rightarrow> string \<Rightarrow> string list" where
  "Split_loop sep cur [] = [cur]"
| "Split_loop sep cur (c # s) =
     (if c = sep then cur # Split_loop sep [] s else Split_loop sep (cur @ [c]) s)"

definition Split :: "string \<Rightarrow> char \<Rightarrow> string list" where
  "Split s sep = Split_loop sep [] s"

record execTransport =
  command :: string
  prompter :: string

definition NewTransport :: "string \<Rightarrow> string \<Rightarrow> (error, execTransport) outcome" where
  "NewTransport cmd prompt = Returns \<lparr>command = cmd, prompter = prompt\<rparr>"

definition Copy :: "execTransport \<Rightarrow> string \<Rightarrow> string \<Rightarrow> error option" where
  "Copy t localPath remoteName = None"

text \<open>
  What \<open>Command\<close> reads from outside the transport: the constant \<open>agent.BaseName\<close>,
  \<open>runtime.GOOS\<close>, the value of \<open>transport.ProcessAttributes()\<close> and the process
  environment \<open>os.Environ()\<close>. None of them is declared in the sources, so they are
  parameters. The process descriptor keeps the name and the arguments handed to
  \<open>exec.Command\<close> and the two fields \<open>Command\<close> sets afterwards.
\<close>

record 'attr ambient =
  BaseName :: string
  GOOS :: string
  ProcessAttributes :: 'attr
  Environ :: "string list"

record 'attr Cmd =
  Name :: string
  Args :: "string list"
  SysProcAttr :: 'attr
  Env :: "string list"

definition firstSplitIndicator :: "string \<Rightarrow> string" where
  "firstSplitIndicator goos =
     (if goos = ''windows'' then backslash # ''kubectl.exe '' else ''/kubectl '')"

definition Command :: "'attr ambient \<Rightarrow> execTransport \<Rightarrow> string \<Rightarrow> (error, 'attr Cmd) outcome" where
  "Command amb t given =
     (if Contains given (BaseName amb) then
        let cmd = command t;
            indicator = firstSplitIndicator (GOOS amb);
            index = Index cmd indicator
        in if index \<ge> 0 then
             let split = take (nat (index + int (length indicator) - 1)) cmd #
                         Split (drop (nat (index + int (length indicator))) cmd) space;
                 name = split ! 0;
                 args = (if length split > 1 then drop 1 split else [])
             in Returns \<lparr>Name = name, Args = args,
                          SysProcAttr = ProcessAttributes amb, Env = Environ amb\<rparr>
           else Fails (New ''unable to identify kubectl invocation'')
      else Fails (New ''transport does not support this command''))"

text \<open>
  \<open>ClassifyError\<close> asks four predicates of the \<open>process\<close> package, which is not among
  the sources: they are parameters, two over the process state and two over the error
  output. The result is the triple the Go function returns.
\<close>

record 'ps process =
  IsPOSIXShellInvalidCommand :: "'ps \<Rightarrow> bool"
  IsPOSIXShellCommandNotFound :: "'ps \<Rightarrow> bool"
  OutputIsWindowsInvalidCommand :: "string \<Rightarrow> bool"
  OutputIsWindowsCommandNotFound :: "string \<Rightarrow> bool"

definition ClassifyError ::
  "'ps process \<Rightarrow> execTransport \<Rightarrow> 'ps \<Rightarrow> string \<Rightarrow> bool \<times> bool \<times> error option" where
  "ClassifyError process t processState errorOutput =
     (if IsPOSIXShellInvalidCommand process processState then (False, False, None)
      else if IsPOSIXShellCommandNotFound process processState then (False, False, None)
      else if OutputIsWindowsInvalidCommand process errorOutput then (False, True, None)
      else if OutputIsWindowsCommandNotFound process errorOutput then (False, True, None)
      else (False, False, Some (New ''unknown error condition encountered'')))"

section \<open>The exec protocol handler\<close>

text \<open>
  \<open>Connect\<close>, as the calling goroutine runs it. Its collaborators are parameters:
  \<open>remote.NewEndpoint\<close> (not among the sources) and the case its \<open>select\<close> statement
  takes, which the scheduler, the dialing goroutine and the context decide: either a
  result is received from the channel, or the context's \<open>Done\<close> channel fires. The
  goroutines it starts are returned beside its outcome, each with the transport and the
  prompter it dials with.
\<close>

record 'stream dialResult =
  stream :: "'stream option"
  error :: "error option"

datatype 'stream select_case = Received "'stream dialResult" | ContextDone

datatype goroutine = Dialing execTransport string

definition Connect ::
  "('stream option \<Rightarrow> string \<Rightarrow> 'session \<Rightarrow> 'version \<Rightarrow> 'configuration \<Rightarrow> bool \<Rightarrow>
      (error, 'endpoint) outcome) \<Rightarrow>
   'stream select_case \<Rightarrow> URL \<Rightarrow> string \<Rightarrow> 'session \<Rightarrow> 'version \<Rightarrow> 'configuration \<Rightarrow> bool \<Rightarrow>
   (error, 'endpoint) outcome \<times> goroutine list" where
  "Connect NewEndpoint selected url prompt session version configuration alpha =
     (if Kind url \<noteq> Kind_Synchronization then
        (Panics ''non-synchronization URL dispatched to synchronization protocol handler'', [])
      else if Protocol url \<noteq> Protocol_Exec then
        (Panics ''non-Exec URL dispatched to Exec protocol handler'', [])
      else if fcard (fmdom (Environment url)) > 0 then
        (Fails (New ''exec URL contains environment variables''), [])
      else if fcard (fmdom (Parameters url)) > 0 then
        (Fails (New ''exec URL contains internal parameters''), [])
      else
        case NewTransport (Host url) prompt of
          Panics msg \<Rightarrow> (Panics msg, [])
        | Fails err \<Rightarrow> (Fails (Wrapped ''unable to create exec transport'' err), [])
        | Returns transport \<Rightarrow>
            let started = [Dialing transport prompt] in
            (case selected of
               Received result \<Rightarrow>
                 (case error result of
                    Some err \<Rightarrow> (Fails (Wrapped ''unable to dial agent endpoint'' err), started)
                  | None \<Rightarrow>
                      (NewEndpoint (stream result) (Path url) session version configuration alpha,
                       started))
             | ContextDone \<Rightarrow> (Fails (New ''connect operation cancelled''), started)))"

section \<open>The endpoint service\<close>

definition endpointAcceptBacklog :: nat where
  "endpointAcceptBacklog = 100"

definition endpointMethodScan :: string where
  "endpointMethodScan = ''endpoint.Scan''"

definition endpointMethodTransmit :: string where
  "endpointMethodTransmit = ''endpoint.Transmit''"

definition endpointMethodApply :: string where
  "endpointMethodApply = ''endpoint.Apply''"

definition endpointMethodUpdate :: string where
  "endpointMethodUpdate = ''endpoint.Update''"

text \<open>
  Modelled from the spec: the multiplexer (\<open>muxado\<close>) is a library, and the \<open>rpc\<close> package
  of this repository (\<open>rpc.NewClient\<close>, \<open>rpc.NewServer\<close>, \<open>Server.Serve\<close>) is not among
  the sources. A multiplexer is the stream it wraps, its role and its configuration; an
  RPC client is the multiplexer it opens sub-streams on; an RPC server is its method
  table. An accepted sub-stream carries one call: the name of the method it asks for and
  the stream handle the handler receives. The server dispatches it by name through its
  table: the handler bound to the name is invoked on the handle, and a name that is not
  bound invokes nothing. \<open>Serve\<close> accepts sub-streams one after the other and dispatches
  each, until an accept fails; it then returns that failure. What the \<open>n\<close>-th call of
  the multiplexer's accept returns is decided by the remote side: it is the parameter
  \<open>Accept\<close>. A loop whose accept never fails does not return: its value is \<open>None\<close>.
\<close>

datatype muxado_role = Role_Server | Role_Client

record muxado_Config =
  AcceptBacklog :: nat

record 'stream muxado_Session =
  transport :: 'stream
  role :: muxado_role
  config :: muxado_Config

definition muxado_Server :: "'stream \<Rightarrow> muxado_Config \<Rightarrow> 'stream muxado_Session" where
  "muxado_Server strm conf = \<lparr>transport = strm, role = Role_Server, config = conf\<rparr>"

record 'stream rpc_Client =
  opener :: "'stream muxado_Session"

definition rpc_NewClient :: "'stream muxado_Session \<Rightarrow> 'stream rpc_Client" where
  "rpc_NewClient mux = \<lparr>opener = mux\<rparr>"

record 'stream endpoint =
  client :: "'stream rpc_Client"

definition newEndpoint :: "'stream rpc_Client \<Rightarrow> 'stream endpoint" where
  "newEndpoint c = \<lparr>client = c\<rparr>"

text \<open>
  A handler is a method of the endpoint bound to its receiver (\<open>endpoint.scan\<close> and the
  three others, whose bodies are empty in the source).
\<close>

datatype endpoint_method = endpoint_scan | endpoint_transmit | endpoint_apply | endpoint_update

type_synonym 'stream rpc_Handler = "'stream endpoint \<times> endpoint_method"

record 'stream rpc_Server =
  handlers :: "string \<rightharpoonup> 'stream rpc_Handler"

definition rpc_NewServer :: "(string \<rightharpoonup> 'stream rpc_Handler) \<Rightarrow> 'stream rpc_Server" where
  "rpc_NewServer table = \<lparr>handlers = table\<rparr>"

record 'sub rpc_call =
  call_method :: string
  call_stream :: 'sub

datatype ('stream, 'sub) rpc_dispatch =
  Invoked "'stream rpc_Handler" 'sub
| Unbound string 'sub

definition serveConnection ::
  "'stream rpc_Server \<Rightarrow> 'sub rpc_call \<Rightarrow> ('stream, 'sub) rpc_dispatch" where
  "serveConnection server call =
     (case handlers server (call_method call) of
        None \<Rightarrow> Unbound (call_method call) (call_stream call)
      | Some handler \<Rightarrow> Invoked handler (call_stream call))"

partial_function (option) Serve_loop ::
  "'stream rpc_Server \<Rightarrow> (nat \<Rightarrow> error + 'sub rpc_call) \<Rightarrow> nat \<Rightarrow>
   ('stream, 'sub) rpc_dispatch list \<Rightarrow> (error \<times> ('stream, 'sub) rpc_dispatch list) option" where
  "Serve_loop server accept n served =
     (case accept n of
        Inl err \<Rightarrow> Some (err, served)
      | Inr call \<Rightarrow> Serve_loop server accept (Suc n) (served @ [serveConnection server call]))"

definition Serve ::
  "('stream muxado_Session \<Rightarrow> nat \<Rightarrow> error + 'sub rpc_call) \<Rightarrow> 'stream rpc_Server \<Rightarrow>
   'stream muxado_Session \<Rightarrow> (error \<times> ('stream, 'sub) rpc_dispatch list) option" where
  "Serve Accept server mux = Serve_loop server (Accept mux) 0 []"

text \<open>\<open>errors.Wrap\<close> of \<open>github.com/pkg/errors\<close>: \<open>nil\<close> stays \<open>nil\<close>.\<close>

definition Wrap :: "error option \<Rightarrow> string \<Rightarrow> error option" where
  "Wrap err msg = (case err of None \<Rightarrow> None | Some e \<Rightarrow> Some (Wrapped msg e))"

text \<open>
  \<open>ServeEndpoint\<close>. The result is \<open>None\<close> when the serving loop never returns; otherwise
  it is the error \<open>ServeEndpoint\<close> returns, with the dispatches the server made before, in
  order.
\<close>

definition ServeEndpoint ::
  "('stream muxado_Session \<Rightarrow> nat \<Rightarrow> error + 'sub rpc_call) \<Rightarrow> 'stream \<Rightarrow>
   (error option \<times> ('stream, 'sub) rpc_dispatch list) option" where
  "ServeEndpoint Accept strm =
     (let multiplexer = muxado_Server strm \<lparr>AcceptBacklog = endpointAcceptBacklog\<rparr>;
          c = rpc_NewClient multiplexer;
          e = newEndpoint c;
          server = rpc_NewServer
                     [endpointMethodScan \<mapsto> (e, endpoint_scan),
                      endpointMethodTransmit \<mapsto> (e, endpoint_transmit),
                      endpointMethodApply \<mapsto> (e, endpoint_apply),
                      endpointMethodUpdate \<mapsto> (e, endpoint_update)]
      in case Serve Accept server multiplexer of
           None \<Rightarrow> None
         | Some (err, served) \<Rightarrow> Some (Wrap (Some err) ''error serving RPC requests'', served))"

section \<open>Properties of the exec URL parser\<close>

subsection \<open>The splitter\<close>

lemma FieldsFunc_loop_no_empty: "[] \<notin> set (FieldsFunc_loop f st cur s)"
  by (induction s arbitrary: st cur) (auto simp: Let_def split: prod.splits)

lemma FieldsFunc_loop_never_splits:
  "never_splits f st a \<Longrightarrow>
     FieldsFunc_loop f st cur (a @ b) = FieldsFunc_loop f (closure_state f st a) (cur @ a) b"
  by (induction a arbitrary: st cur) (auto simp: Let_def split: prod.splits)

lemma FieldsFunc_loop_split_at:
  "fst (f (closure_state f st a) c) \<Longrightarrow>
     FieldsFunc_loop f st cur (a @ c # b) =
       FieldsFunc_loop f st cur a @ FieldsFunc_loop f (snd (f (closure_state f st a) c)) [] b"
  by (induction a arbitrary: st cur) (auto simp: Let_def split: prod.splits)

lemma FieldsFunc_single:
  assumes "never_splits f st a" and "a \<noteq> []"
  shows "FieldsFunc a f st = [a]"
  using FieldsFunc_loop_never_splits [OF assms(1), of "[]" "[]"] assms(2)
  by (simp add: FieldsFunc_def)

lemma FieldsFunc_Nil: "FieldsFunc [] f st = []"
  by (simp add: FieldsFunc_def)

lemma FieldsFunc_split_at:
  "fst (f (closure_state f st a) c) \<Longrightarrow>
     FieldsFunc (a @ c # b) f st =
       FieldsFunc a f st @ FieldsFunc b f (snd (f (closure_state f st a) c))"
  by (simp add: FieldsFunc_def FieldsFunc_loop_split_at)

lemma splitter_colon_unquoted: "\<not> fst st \<Longrightarrow> splitter st colon = (True, st)"
  by (cases st) (simp add: splitter_def)

lemma splitter_not_colon: "c \<noteq> colon \<Longrightarrow> \<not> fst (splitter st c)"
  by (simp add: splitter_def Let_def)

lemma splitter_plain:
  "\<not> fst st \<Longrightarrow> c \<noteq> dquote \<Longrightarrow> c \<noteq> squote \<Longrightarrow> snd (splitter st c) = st"
  by (cases st) (simp add: splitter_def)

lemma splitter_mark:
  "snd st = dquote \<or> snd st = squote \<Longrightarrow>
     snd (snd (splitter st c)) = dquote \<or> snd (snd (splitter st c)) = squote"
  by (cases st) (auto simp: splitter_def Let_def)

lemma closure_state_mark:
  "snd st = dquote \<or> snd st = squote \<Longrightarrow>
     snd (closure_state splitter st a) = dquote \<or> snd (closure_state splitter st a) = squote"
proof (induction a arbitrary: st)
  case Nil
  then show ?case by simp
next
  case (Cons c a)
  have "snd (snd (splitter st c)) = dquote \<or> snd (snd (splitter st c)) = squote"
    using Cons.prems by (rule splitter_mark)
  then show ?case
    using Cons.IH [of "snd (splitter st c)"] by simp
qed

lemma splitter_colon_quoted:
  "fst st \<Longrightarrow> snd st = dquote \<or> snd st = squote \<Longrightarrow> splitter st colon = (True, st) \<Longrightarrow> False"
  by (cases st) (auto simp: splitter_def)

lemma splitter_colon_quoted':
  "fst st \<Longrightarrow> snd st = dquote \<or> snd st = squote \<Longrightarrow> \<not> fst (splitter st colon)"
  by (cases st) (auto simp: splitter_def)

lemma never_splits_no_colon: "colon \<notin> set p \<Longrightarrow> never_splits splitter st p"
  by (induction p arbitrary: st) (auto simp: splitter_not_colon)

lemma closure_state_plain:
  "\<not> fst st \<Longrightarrow> dquote \<notin> set p \<Longrightarrow> squote \<notin> set p \<Longrightarrow> closure_state splitter st p = st"
  by (induction p arbitrary: st) (auto simp: splitter_plain)

subsection \<open>Quote stripping\<close>

lemma stripQuotes_wrapped:
  "q = squote \<or> q = dquote \<Longrightarrow> stripQuotes (q # mid @ [q]) = mid"
  by (auto simp: stripQuotes_def nth_append)

lemma stripQuotes_other:
  assumes "\<nexists>q mid. (q = squote \<or> q = dquote) \<and> fld = q # mid @ [q]"
  shows "stripQuotes fld = fld"
proof (cases "length fld \<ge> 2")
  case False
  then show ?thesis by (simp add: stripQuotes_def)
next
  case True
  then obtain q rest where c: "fld = q # rest" and "rest \<noteq> []"
    by (cases fld) (auto simp: Suc_le_eq)
  then obtain mid l where r: "rest = mid @ [l]"
    by (metis rev_exhaust)
  have "\<not> ((q = squote \<or> q = dquote) \<and> l = q)"
    using assms c r by auto
  then show ?thesis
    by (auto simp: stripQuotes_def c r nth_append)
qed

lemma stripQuotes_plain:
  "dquote \<notin> set p \<Longrightarrow> squote \<notin> set p \<Longrightarrow> stripQuotes p = p"
  by (rule stripQuotes_other) auto

lemma isExecURL_length: "isExecURL raw \<Longrightarrow> length execURLPrefix \<le> length raw"
  by (simp add: isExecURL_def HasPrefix_def ToLower_def)

lemma parseExec_fields:
  assumes "length execURLPrefix \<le> length raw"
  shows "parseExec raw kind =
     (let split = FieldsFunc (drop (length execURLPrefix) raw) splitter (False, dquote)
      in if split = [] then Fails (New ''no command or path specified'')
         else if length split > 2 then Fails (New ''too many separators'')
         else Returns \<lparr>Kind = kind, Protocol = Protocol_Exec, Host = stripQuotes (split ! 0),
                        Path = (if length split = 2 then split ! 1 else []),
                        Environment = fmempty, Parameters = fmempty\<rparr>)"
  using assms by (simp add: parseExec_def Let_def)

lemma FieldsFunc_unquoted_colon:
  assumes "\<not> fst (closure_state splitter st a)"
  shows "FieldsFunc (a @ colon # b) splitter st =
           FieldsFunc a splitter st @ FieldsFunc b splitter (closure_state splitter st a)"
proof -
  have "splitter (closure_state splitter st a) colon = (True, closure_state splitter st a)"
    using assms by (rule splitter_colon_unquoted)
  then show ?thesis
    using FieldsFunc_split_at [of splitter st a colon b] by simp
qed

lemma FieldsFunc_quoted_colon:
  assumes "fst (closure_state splitter (False, dquote) a)"
  shows "\<not> fst (splitter (closure_state splitter (False, dquote) a) colon)"
proof -
  have "snd (closure_state splitter (False, dquote) a) = dquote \<or>
        snd (closure_state splitter (False, dquote) a) = squote"
    by (rule closure_state_mark) simp
  with assms show ?thesis
    by (rule splitter_colon_quoted')
qed

subsection \<open>The code against the spec's splitting rule\<close>

lemma splitter_close: "c \<noteq> colon \<Longrightarrow> splitter (True, c) c = (False, (False, c))"
  by (simp add: splitter_def)

lemma splitter_inside: "x \<noteq> c \<Longrightarrow> splitter (True, c) x = (False, (True, c))"
  by (simp add: splitter_def)

lemma splitter_open:
  "c = dquote \<or> c = squote \<Longrightarrow> splitter (False, mark) c = (False, (True, c))"
  by (auto simp: splitter_def)

lemma splitter_colon: "splitter (False, mark) colon = (True, (False, mark))"
  by (simp add: splitter_def)

lemma splitter_other:
  "c \<noteq> colon \<Longrightarrow> c \<noteq> dquote \<Longrightarrow> c \<noteq> squote \<Longrightarrow>
     splitter (False, mark) c = (False, (False, mark))"
  by (simp add: splitter_def)

lemma FieldsFunc_loop_in_quote:
  assumes "c \<noteq> colon" and "cur \<noteq> []"
  shows "FieldsFunc_loop splitter (True, c) cur s =
     (case dropWhile (\<lambda>x. x \<noteq> c) s of
        [] \<Rightarrow> [cur @ s]
      | closing # rest \<Rightarrow>
          FieldsFunc_loop splitter (False, c) (cur @ takeWhile (\<lambda>x. x \<noteq> c) s @ [closing]) rest)"
  using assms
proof (induction s arbitrary: cur)
  case Nil
  then show ?case by simp
next
  case (Cons x xs)
  show ?case
  proof (cases "x = c")
    case True
    then show ?thesis using Cons.prems by (simp add: splitter_close)
  next
    case False
    have step: "FieldsFunc_loop splitter (True, c) cur (x # xs) =
                 FieldsFunc_loop splitter (True, c) (cur @ [x]) xs"
      using False by (simp add: splitter_inside)
    have ih: "FieldsFunc_loop splitter (True, c) (cur @ [x]) xs =
      (case dropWhile (\<lambda>x. x \<noteq> c) xs of
        [] \<Rightarrow> [(cur @ [x]) @ xs]
      | closing # rest \<Rightarrow>
          FieldsFunc_loop splitter (False, c)
            ((cur @ [x]) @ takeWhile (\<lambda>x. x \<noteq> c) xs @ [closing]) rest)"
      using Cons.prems by (intro Cons.IH) simp_all
    have "(case dropWhile (\<lambda>x. x \<noteq> c) (x # xs) of
        [] \<Rightarrow> [cur @ x # xs]
      | closing # rest \<Rightarrow>
          FieldsFunc_loop splitter (False, c)
            (cur @ takeWhile (\<lambda>x. x \<noteq> c) (x # xs) @ [closing]) rest) =
      (case dropWhile (\<lambda>x. x \<noteq> c) xs of
        [] \<Rightarrow> [(cur @ [x]) @ xs]
      | closing # rest \<Rightarrow>
          FieldsFunc_loop splitter (False, c)
            ((cur @ [x]) @ takeWhile (\<lambda>x. x \<noteq> c) xs @ [closing]) rest)"
      using False by (cases "dropWhile (\<lambda>x. x \<noteq> c) xs") (simp_all del: dropWhile_eq_Nil_conv)
    then show ?thesis
      by (simp only: step ih)
  qed
qed

lemma FieldsFunc_loop_refines_spec:
  "FieldsFunc_loop splitter (False, mark) piece s = spec_fields_from piece s"
proof (induction piece s arbitrary: mark rule: spec_fields_from.induct)
  case (1 piece)
  then show ?case by simp
next
  case (2 piece c s)
  show ?case
  proof (cases "c = colon")
    case True
    then show ?thesis using "2.IH"(1) [of mark] by (simp add: splitter_colon)
  next
    case nc: False
    show ?thesis
    proof (cases "c = dquote \<or> c = squote")
      case True
      have step: "FieldsFunc_loop splitter (False, mark) piece (c # s) =
                   FieldsFunc_loop splitter (True, c) (piece @ [c]) s"
        using True by (simp add: splitter_open)
      have inq: "FieldsFunc_loop splitter (True, c) (piece @ [c]) s =
        (case dropWhile (\<lambda>x. x \<noteq> c) s of
           [] \<Rightarrow> [(piece @ [c]) @ s]
         | closing # rest \<Rightarrow>
             FieldsFunc_loop splitter (False, c)
               ((piece @ [c]) @ takeWhile (\<lambda>x. x \<noteq> c) s @ [closing]) rest)"
        using nc by (intro FieldsFunc_loop_in_quote) simp_all
      show ?thesis
      proof (cases "dropWhile (\<lambda>x. x \<noteq> c) s")
        case Nil
        have "FieldsFunc_loop splitter (True, c) (piece @ [c]) s = [piece @ c # s]"
          by (simp add: inq Nil del: dropWhile_eq_Nil_conv)
        moreover have "spec_fields_from piece (c # s) = [piece @ c # s]"
          using True nc by (simp add: Nil del: dropWhile_eq_Nil_conv)
        ultimately show ?thesis by (simp only: step)
      next
        case (Cons closing rest)
        have "FieldsFunc_loop splitter (True, c) (piece @ [c]) s =
            FieldsFunc_loop splitter (False, c)
              (piece @ c # takeWhile (\<lambda>x. x \<noteq> c) s @ [closing]) rest"
          by (simp add: inq Cons del: dropWhile_eq_Nil_conv)
        moreover have "FieldsFunc_loop splitter (False, c)
              (piece @ c # takeWhile (\<lambda>x. x \<noteq> c) s @ [closing]) rest =
            spec_fields_from (piece @ c # takeWhile (\<lambda>x. x \<noteq> c) s @ [closing]) rest"
          using nc True Cons by (rule "2.IH"(2))
        moreover have "spec_fields_from piece (c # s) =
            spec_fields_from (piece @ c # takeWhile (\<lambda>x. x \<noteq> c) s @ [closing]) rest"
          using True nc by (simp add: Cons del: dropWhile_eq_Nil_conv)
        ultimately show ?thesis by (simp only: step)
      qed
    next
      case False
      then have "FieldsFunc_loop splitter (False, mark) piece (c # s) =
                   FieldsFunc_loop splitter (False, mark) (piece @ [c]) s"
        using nc by (simp add: splitter_other)
      moreover have "FieldsFunc_loop splitter (False, mark) (piece @ [c]) s =
                       spec_fields_from (piece @ [c]) s"
        using nc False by (rule "2.IH"(3))
      moreover have "spec_fields_from piece (c # s) = spec_fields_from (piece @ [c]) s"
        using nc False by simp
      ultimately show ?thesis by simp
    qed
  qed
qed

lemma FieldsFunc_refines_spec: "FieldsFunc s splitter (False, dquote) = spec_fields s"
  by (simp add: FieldsFunc_def spec_fields_def FieldsFunc_loop_refines_spec)

lemma toLowerByte_e: "toLowerByte x = CHR ''e'' \<longleftrightarrow> x = CHR ''e'' \<or> x = CHR ''E''"
  by (auto simp: toLowerByte_def split: if_splits)

lemma toLowerByte_x: "toLowerByte x = CHR ''x'' \<longleftrightarrow> x = CHR ''x'' \<or> x = CHR ''X''"
  by (auto simp: toLowerByte_def split: if_splits)

lemma toLowerByte_c: "toLowerByte x = CHR ''c'' \<longleftrightarrow> x = CHR ''c'' \<or> x = CHR ''C''"
  by (auto simp: toLowerByte_def split: if_splits)

lemma toLowerByte_colon: "toLowerByte x = colon \<longleftrightarrow> x = colon"
  by (auto simp: toLowerByte_def split: if_splits)

lemma isExecURL_iff:
  "isExecURL raw \<longleftrightarrow>
     (\<exists>a b c d rest. raw = a # b # c # d # colon # rest \<and>
        (a = CHR ''e'' \<or> a = CHR ''E'') \<and> (b = CHR ''x'' \<or> b = CHR ''X'') \<and>
        (c = CHR ''e'' \<or> c = CHR ''E'') \<and> (d = CHR ''c'' \<or> d = CHR ''C''))"
proof
  assume h: "isExecURL raw"
  then have "5 \<le> length raw"
    by (simp add: isExecURL_def HasPrefix_def ToLower_def execURLPrefix_def)
  then obtain a r1 where 1: "raw = a # r1" "4 \<le> length r1" by (cases raw) auto
  then obtain b r2 where 2: "r1 = b # r2" "3 \<le> length r2" by (cases r1) auto
  then obtain c r3 where 3: "r2 = c # r3" "2 \<le> length r3" by (cases r2) auto
  then obtain d r4 where 4: "r3 = d # r4" "1 \<le> length r4" by (cases r3) auto
  then obtain e rest where 5: "r4 = e # rest" by (cases r4) auto
  have raw: "raw = a # b # c # d # e # rest"
    using 1 2 3 4 5 by simp
  with h have "toLowerByte a = CHR ''e'' \<and> toLowerByte b = CHR ''x'' \<and>
               toLowerByte c = CHR ''e'' \<and> toLowerByte d = CHR ''c'' \<and> toLowerByte e = colon"
    by (simp add: isExecURL_def HasPrefix_def ToLower_def execURLPrefix_def)
  then have "(a = CHR ''e'' \<or> a = CHR ''E'') \<and> (b = CHR ''x'' \<or> b = CHR ''X'') \<and>
        (c = CHR ''e'' \<or> c = CHR ''E'') \<and> (d = CHR ''c'' \<or> d = CHR ''C'') \<and> e = colon"
    by (simp only: toLowerByte_e toLowerByte_x toLowerByte_c toLowerByte_colon)
  then have "raw = a # b # c # d # colon # rest \<and>
        (a = CHR ''e'' \<or> a = CHR ''E'') \<and> (b = CHR ''x'' \<or> b = CHR ''X'') \<and>
        (c = CHR ''e'' \<or> c = CHR ''E'') \<and> (d = CHR ''c'' \<or> d = CHR ''C'')"
    using raw by (simp only:)
  then show "\<exists>a b c d rest. raw = a # b # c # d # colon # rest \<and>
        (a = CHR ''e'' \<or> a = CHR ''E'') \<and> (b = CHR ''x'' \<or> b = CHR ''X'') \<and>
        (c = CHR ''e'' \<or> c = CHR ''E'') \<and> (d = CHR ''c'' \<or> d = CHR ''C'')"
    by (intro exI)
next
  assume "\<exists>a b c d rest. raw = a # b # c # d # colon # rest \<and>
        (a = CHR ''e'' \<or> a = CHR ''E'') \<and> (b = CHR ''x'' \<or> b = CHR ''X'') \<and>
        (c = CHR ''e'' \<or> c = CHR ''E'') \<and> (d = CHR ''c'' \<or> d = CHR ''C'')"
  then obtain a b c d rest where raw: "raw = a # b # c # d # colon # rest"
    and a: "a = CHR ''e'' \<or> a = CHR ''E''" and b: "b = CHR ''x'' \<or> b = CHR ''X''"
    and c: "c = CHR ''e'' \<or> c = CHR ''E''" and d: "d = CHR ''c'' \<or> d = CHR ''C''"
    by (elim exE conjE)
  have l: "toLowerByte a = CHR ''e''" "toLowerByte b = CHR ''x''"
          "toLowerByte c = CHR ''e''" "toLowerByte d = CHR ''c''" "toLowerByte colon = colon"
    using a b c d by (simp_all only: toLowerByte_e toLowerByte_x toLowerByte_c toLowerByte_colon)
  show "isExecURL raw"
    using l by (simp add: raw isExecURL_def HasPrefix_def ToLower_def execURLPrefix_def)
qed

lemma parseExec_by_spec_fields:
  assumes "isExecURL raw"
  shows "parseExec raw kind =
     (let fields = spec_fields (drop 5 raw)
      in if fields = [] then Fails (New ''no command or path specified'')
         else if length fields > 2 then Fails (New ''too many separators'')
         else Returns \<lparr>Kind = kind, Protocol = Protocol_Exec, Host = stripQuotes (fields ! 0),
                        Path = (if length fields = 2 then fields ! 1 else []),
                        Environment = fmempty, Parameters = fmempty\<rparr>)"
proof -
  have len: "length execURLPrefix \<le> length raw"
    using assms by (rule isExecURL_length)
  have l5: "length execURLPrefix = 5"
    by (simp add: execURLPrefix_def)
  have "FieldsFunc (drop (length execURLPrefix) raw) splitter (False, dquote) =
          spec_fields (drop 5 raw)"
    unfolding l5 by (rule FieldsFunc_refines_spec)
  then show ?thesis
    by (simp add: parseExec_fields [OF len] Let_def)
qed

text \<open>
  Claim C1, as the code has it. For every raw string that starts with \<open>exec:\<close> in any
  letter case, \<open>parseExec\<close> drops these five bytes and decides by the fields of the rest,
  cut as the spec says: at every colon outside a quoted span, single or double. No field
  gives the error "no command or path specified"; more than two give "too many
  separators"; one field gives a URL of the Exec protocol with an empty path, two fields
  give the second field, unchanged, as the path. In both, the host is the first field
  after quote stripping: a field that starts and ends with the same quote character
  loses that pair, any other field is kept as it is. The fields the code computes with
  its quote toggle are the fields of the spec's rule, on every string.
\<close>

theorem parseExec_by_field_count:
  assumes "isExecURL raw"
  shows "(spec_fields (drop 5 raw) = [] \<longrightarrow>
            parseExec raw kind = Fails (New ''no command or path specified'')) \<and>
         (length (spec_fields (drop 5 raw)) > 2 \<longrightarrow>
            parseExec raw kind = Fails (New ''too many separators'')) \<and>
         (\<forall>f. spec_fields (drop 5 raw) = [f] \<longrightarrow>
            (\<exists>h. parseExec raw kind =
                   Returns \<lparr>Kind = kind, Protocol = Protocol_Exec, Host = h, Path = [],
                             Environment = fmempty, Parameters = fmempty\<rparr> \<and>
                 (\<forall>q mid. (q = squote \<or> q = dquote) \<and> f = q # mid @ [q] \<longrightarrow> h = mid) \<and>
                 ((\<nexists>q mid. (q = squote \<or> q = dquote) \<and> f = q # mid @ [q]) \<longrightarrow> h = f))) \<and>
         (\<forall>f g. spec_fields (drop 5 raw) = [f, g] \<longrightarrow>
            (\<exists>h. parseExec raw kind =
                   Returns \<lparr>Kind = kind, Protocol = Protocol_Exec, Host = h, Path = g,
                             Environment = fmempty, Parameters = fmempty\<rparr> \<and>
                 (\<forall>q mid. (q = squote \<or> q = dquote) \<and> f = q # mid @ [q] \<longrightarrow> h = mid) \<and>
                 ((\<nexists>q mid. (q = squote \<or> q = dquote) \<and> f = q # mid @ [q]) \<longrightarrow> h = f))) \<and>
         (\<forall>s. FieldsFunc s splitter (False, dquote) = spec_fields s) \<and>
         (\<forall>r. isExecURL r \<longleftrightarrow>
            (\<exists>a b c d rest. r = a # b # c # d # colon # rest \<and>
               (a = CHR ''e'' \<or> a = CHR ''E'') \<and> (b = CHR ''x'' \<or> b = CHR ''X'') \<and>
               (c = CHR ''e'' \<or> c = CHR ''E'') \<and> (d = CHR ''c'' \<or> d = CHR ''C'')))"
proof -
  note p = parseExec_by_spec_fields [OF assms, of kind]
  have strip: "(\<forall>q mid. (q = squote \<or> q = dquote) \<and> f = q # mid @ [q] \<longrightarrow> stripQuotes f = mid) \<and>
               ((\<nexists>q mid. (q = squote \<or> q = dquote) \<and> f = q # mid @ [q]) \<longrightarrow> stripQuotes f = f)"
    for f
    using stripQuotes_wrapped stripQuotes_other [of f] by blast
  have none: "spec_fields (drop 5 raw) = [] \<longrightarrow>
            parseExec raw kind = Fails (New ''no command or path specified'')"
    by (simp add: p)
  have many: "length (spec_fields (drop 5 raw)) > 2 \<longrightarrow>
            parseExec raw kind = Fails (New ''too many separators'')"
    by (auto simp: p Let_def)
  have one: "\<forall>f. spec_fields (drop 5 raw) = [f] \<longrightarrow>
            (\<exists>h. parseExec raw kind =
                   Returns \<lparr>Kind = kind, Protocol = Protocol_Exec, Host = h, Path = [],
                             Environment = fmempty, Parameters = fmempty\<rparr> \<and>
                 (\<forall>q mid. (q = squote \<or> q = dquote) \<and> f = q # mid @ [q] \<longrightarrow> h = mid) \<and>
                 ((\<nexists>q mid. (q = squote \<or> q = dquote) \<and> f = q # mid @ [q]) \<longrightarrow> h = f))"
  proof (intro allI impI)
    fix f assume f: "spec_fields (drop 5 raw) = [f]"
    have "parseExec raw kind =
            Returns \<lparr>Kind = kind, Protocol = Protocol_Exec, Host = stripQuotes f, Path = [],
                      Environment = fmempty, Parameters = fmempty\<rparr>"
      by (simp add: p f)
    with strip [of f] show "\<exists>h. parseExec raw kind =
                   Returns \<lparr>Kind = kind, Protocol = Protocol_Exec, Host = h, Path = [],
                             Environment = fmempty, Parameters = fmempty\<rparr> \<and>
                 (\<forall>q mid. (q = squote \<or> q = dquote) \<and> f = q # mid @ [q] \<longrightarrow> h = mid) \<and>
                 ((\<nexists>q mid. (q = squote \<or> q = dquote) \<and> f = q # mid @ [q]) \<longrightarrow> h = f)"
      by (intro exI [of _ "stripQuotes f"] conjI) (erule conjunct1 | erule conjunct2 | assumption)+
  qed
  have two: "\<forall>f g. spec_fields (drop 5 raw) = [f, g] \<longrightarrow>
            (\<exists>h. parseExec raw kind =
                   Returns \<lparr>Kind = kind, Protocol = Protocol_Exec, Host = h, Path = g,
                             Environment = fmempty, Parameters = fmempty\<rparr> \<and>
                 (\<forall>q mid. (q = squote \<or> q = dquote) \<and> f = q # mid @ [q] \<longrightarrow> h = mid) \<and>
                 ((\<nexists>q mid. (q = squote \<or> q = dquote) \<and> f = q # mid @ [q]) \<longrightarrow> h = f))"
  proof (intro allI impI)
    fix f g assume f: "spec_fields (drop 5 raw) = [f, g]"
    have "parseExec raw kind =
            Returns \<lparr>Kind = kind, Protocol = Protocol_Exec, Host = stripQuotes f, Path = g,
                      Environment = fmempty, Parameters = fmempty\<rparr>"
      by (simp add: p f)
    with strip [of f] show "\<exists>h. parseExec raw kind =
                   Returns \<lparr>Kind = kind, Protocol = Protocol_Exec, Host = h, Path = g,
                             Environment = fmempty, Parameters = fmempty\<rparr> \<and>
                 (\<forall>q mid. (q = squote \<or> q = dquote) \<and> f = q # mid @ [q] \<longrightarrow> h = mid) \<and>
                 ((\<nexists>q mid. (q = squote \<or> q = dquote) \<and> f = q # mid @ [q]) \<longrightarrow> h = f)"
      by (intro exI [of _ "stripQuotes f"] conjI) (erule conjunct1 | erule conjunct2 | assumption)+
  qed
  have refine: "\<forall>s. FieldsFunc s splitter (False, dquote) = spec_fields s"
    using FieldsFunc_refines_spec by (intro allI)
  have pre: "\<forall>r. isExecURL r \<longleftrightarrow>
            (\<exists>a b c d rest. r = a # b # c # d # colon # rest \<and>
               (a = CHR ''e'' \<or> a = CHR ''E'') \<and> (b = CHR ''x'' \<or> b = CHR ''X'') \<and>
               (c = CHR ''e'' \<or> c = CHR ''E'') \<and> (d = CHR ''c'' \<or> d = CHR ''C''))"
    using isExecURL_iff by (intro allI)
  from none many one two refine pre show ?thesis
    by (intro conjI)
qed

text \<open>
  The theorem at five inputs: \<open>Exec:'x:y':"p:q"\<close> (a colon inside single quotes and one
  inside double quotes, neither cuts; the command loses its quotes, the path keeps them),
  \<open>exec:"a'b:c"\<close> (a single quote inside double quotes closes nothing), \<open>exec:'x':y\<close>
  (the single-quoted span closes before the colon, which cuts), \<open>exec:\<close> (no field) and
  \<open>exec:a:b:c\<close> (three fields).
\<close>

theorem parseExec_by_field_count_witness:
  "parseExec (''Exec:'' @ [squote] @ ''x:y'' @ [squote] @ '':'' @ [dquote] @ ''p:q'' @ [dquote])
     Kind_Synchronization =
     Returns \<lparr>Kind = Kind_Synchronization, Protocol = Protocol_Exec, Host = ''x:y'',
               Path = [dquote] @ ''p:q'' @ [dquote],
               Environment = fmempty, Parameters = fmempty\<rparr> \<and>
   parseExec (''exec:'' @ [dquote] @ ''a'' @ [squote] @ ''b:c'' @ [dquote]) Kind_Synchronization =
     Returns \<lparr>Kind = Kind_Synchronization, Protocol = Protocol_Exec,
               Host = ''a'' @ [squote] @ ''b:c'', Path = [],
               Environment = fmempty, Parameters = fmempty\<rparr> \<and>
   parseExec (''exec:'' @ [squote] @ ''x'' @ [squote] @ '':y'') Kind_Synchronization =
     Returns \<lparr>Kind = Kind_Synchronization, Protocol = Protocol_Exec, Host = ''x'', Path = ''y'',
               Environment = fmempty, Parameters = fmempty\<rparr> \<and>
   parseExec ''exec:'' Kind_Synchronization = Fails (New ''no command or path specified'') \<and>
   parseExec ''exec:a:b:c'' Kind_Synchronization = Fails (New ''too many separators'')"
proof -
  let ?w1 = "''Exec:'' @ [squote] @ ''x:y'' @ [squote] @ '':'' @ [dquote] @ ''p:q'' @ [dquote]"
  let ?w2 = "''exec:'' @ [dquote] @ ''a'' @ [squote] @ ''b:c'' @ [dquote]"
  let ?w3 = "''exec:'' @ [squote] @ ''x'' @ [squote] @ '':y''"
  have h1: "isExecURL ?w1"
    by (simp add: isExecURL_def HasPrefix_def ToLower_def toLowerByte_def execURLPrefix_def)
  have h2: "isExecURL ?w2"
    by (simp add: isExecURL_def HasPrefix_def ToLower_def toLowerByte_def execURLPrefix_def)
  have h3: "isExecURL ?w3"
    by (simp add: isExecURL_def HasPrefix_def ToLower_def toLowerByte_def execURLPrefix_def)
  have h4: "isExecURL ''exec:''"
    by (simp add: isExecURL_def HasPrefix_def ToLower_def toLowerByte_def execURLPrefix_def)
  have h5: "isExecURL ''exec:a:b:c''"
    by (simp add: isExecURL_def HasPrefix_def ToLower_def toLowerByte_def execURLPrefix_def)
  have f1: "spec_fields (drop 5 ?w1) = [squote # ''x:y'' @ [squote], dquote # ''p:q'' @ [dquote]]"
    by (simp add: spec_fields_def)
  have f2: "spec_fields (drop 5 ?w2) = [dquote # (''a'' @ [squote] @ ''b:c'') @ [dquote]]"
    by (simp add: spec_fields_def)
  have f3: "spec_fields (drop 5 ?w3) = [squote # ''x'' @ [squote], ''y'']"
    by (simp add: spec_fields_def)
  have f4: "spec_fields (drop 5 ''exec:'') = []"
    by (simp add: spec_fields_def)
  have f5: "length (spec_fields (drop 5 ''exec:a:b:c'')) > 2"
    by (simp add: spec_fields_def)
  have r1: "parseExec ?w1 Kind_Synchronization =
     Returns \<lparr>Kind = Kind_Synchronization, Protocol = Protocol_Exec, Host = ''x:y'',
               Path = [dquote] @ ''p:q'' @ [dquote],
               Environment = fmempty, Parameters = fmempty\<rparr>"
    using parseExec_by_field_count [OF h1, of Kind_Synchronization, THEN conjunct2,
            THEN conjunct2, THEN conjunct2, THEN conjunct1, rule_format, OF f1]
  proof (elim exE conjE)
    fix h
    assume r: "parseExec ?w1 Kind_Synchronization =
        Returns \<lparr>Kind = Kind_Synchronization, Protocol = Protocol_Exec, Host = h,
                  Path = dquote # ''p:q'' @ [dquote],
                  Environment = fmempty, Parameters = fmempty\<rparr>"
      and wq: "\<forall>q mid. (q = squote \<or> q = dquote) \<and> squote # ''x:y'' @ [squote] = q # mid @ [q] \<longrightarrow>
                 h = mid"
    have "h = ''x:y''"
      using wq [rule_format, of squote "''x:y''"] by simp
    with r show ?thesis by simp
  qed
  have r2: "parseExec ?w2 Kind_Synchronization =
     Returns \<lparr>Kind = Kind_Synchronization, Protocol = Protocol_Exec,
               Host = ''a'' @ [squote] @ ''b:c'', Path = [],
               Environment = fmempty, Parameters = fmempty\<rparr>"
    using parseExec_by_field_count [OF h2, of Kind_Synchronization, THEN conjunct2,
            THEN conjunct2, THEN conjunct1, rule_format, OF f2]
  proof (elim exE conjE)
    fix h
    assume r: "parseExec ?w2 Kind_Synchronization =
        Returns \<lparr>Kind = Kind_Synchronization, Protocol = Protocol_Exec, Host = h, Path = [],
                  Environment = fmempty, Parameters = fmempty\<rparr>"
      and wq: "\<forall>q mid. (q = squote \<or> q = dquote) \<and>
                 dquote # (''a'' @ [squote] @ ''b:c'') @ [dquote] = q # mid @ [q] \<longrightarrow> h = mid"
    have "h = ''a'' @ [squote] @ ''b:c''"
      using wq [rule_format, of dquote "''a'' @ [squote] @ ''b:c''"] by simp
    with r show ?thesis by simp
  qed
  have r3: "parseExec ?w3 Kind_Synchronization =
     Returns \<lparr>Kind = Kind_Synchronization, Protocol = Protocol_Exec, Host = ''x'', Path = ''y'',
               Environment = fmempty, Parameters = fmempty\<rparr>"
    using parseExec_by_field_count [OF h3, of Kind_Synchronization, THEN conjunct2,
            THEN conjunct2, THEN conjunct2, THEN conjunct1, rule_format, OF f3]
  proof (elim exE conjE)
    fix h
    assume r: "parseExec ?w3 Kind_Synchronization =
        Returns \<lparr>Kind = Kind_Synchronization, Protocol = Protocol_Exec, Host = h, Path = ''y'',
                  Environment = fmempty, Parameters = fmempty\<rparr>"
      and wq: "\<forall>q mid. (q = squote \<or> q = dquote) \<and> squote # ''x'' @ [squote] = q # mid @ [q] \<longrightarrow>
                 h = mid"
    have "h = ''x''"
      using wq [rule_format, of squote "''x''"] by simp
    with r show ?thesis by simp
  qed
  have r4: "parseExec ''exec:'' Kind_Synchronization = Fails (New ''no command or path specified'')"
    using parseExec_by_field_count [OF h4, of Kind_Synchronization, THEN conjunct1] f4
    by (rule mp)
  have r5: "parseExec ''exec:a:b:c'' Kind_Synchronization = Fails (New ''too many separators'')"
    using parseExec_by_field_count [OF h5, of Kind_Synchronization, THEN conjunct2, THEN conjunct1]
      f5
    by (rule mp)
  from r1 r2 r3 r4 r5 show ?thesis by (intro conjI)
qed

text \<open>
  Claim C1 as it is written says that the single field is the command, and the command
  the host. At \<open>exec:"a"\<close> the single field is \<open>"a"\<close>, quotes included, and the host is
  \<open>a\<close>.
\<close>

theorem parseExec_quoted_command_counterexample:
  "isExecURL (''exec:'' @ [dquote, CHR ''a'', dquote]) \<and>
   FieldsFunc (drop (length execURLPrefix) (''exec:'' @ [dquote, CHR ''a'', dquote]))
     splitter (False, dquote) = [[dquote, CHR ''a'', dquote]] \<and>
   spec_fields (drop 5 (''exec:'' @ [dquote, CHR ''a'', dquote])) = [[dquote, CHR ''a'', dquote]] \<and>
   parseExec (''exec:'' @ [dquote, CHR ''a'', dquote]) Kind_Synchronization =
     Returns \<lparr>Kind = Kind_Synchronization, Protocol = Protocol_Exec, Host = ''a'', Path = [],
               Environment = fmempty, Parameters = fmempty\<rparr> \<and>
   parseExec (''exec:'' @ [dquote, CHR ''a'', dquote]) Kind_Synchronization \<noteq>
     Returns \<lparr>Kind = Kind_Synchronization, Protocol = Protocol_Exec,
               Host = [dquote, CHR ''a'', dquote], Path = [],
               Environment = fmempty, Parameters = fmempty\<rparr>"
  by (simp add: isExecURL_def HasPrefix_def ToLower_def toLowerByte_def execURLPrefix_def
      parseExec_def FieldsFunc_def splitter_def stripQuotes_def spec_fields_def)

lemma FieldsFunc_command_path:
  assumes "cmd \<noteq> []"
    and "never_splits splitter st cmd"
    and "\<not> fst (closure_state splitter st cmd)"
    and "never_splits splitter (closure_state splitter st cmd) path"
  shows "FieldsFunc (cmd @ colon # path) splitter st =
           (if path = [] then [cmd] else [cmd, path])"
proof -
  have "FieldsFunc (cmd @ colon # path) splitter st =
          FieldsFunc cmd splitter st @ FieldsFunc path splitter (closure_state splitter st cmd)"
    using assms(3) by (rule FieldsFunc_unquoted_colon)
  moreover have "FieldsFunc cmd splitter st = [cmd]"
    using assms(2,1) by (rule FieldsFunc_single)
  moreover have "FieldsFunc path splitter (closure_state splitter st cmd) =
                   (if path = [] then [] else [path])"
    using FieldsFunc_single [OF assms(4)] by (simp add: FieldsFunc_Nil)
  ultimately show ?thesis by simp
qed

lemma ToLower_length: "ToLower pre = p \<Longrightarrow> length pre = length p"
  by (auto simp: ToLower_def)

text \<open>
  Claim C7. Take an exec URL \<open>exec:<cmd>:<path>\<close>, the prefix in any letter case, whose
  command is not empty, holds no colon outside quotes and closes the quotes it opens, and
  whose path holds no colon outside quotes. Parsing it returns the path field as it is
  (its quotes are kept), and the command field as the host, except that a command that
  starts and ends with the same quote character loses that one pair.
\<close>

theorem parseExec_roundtrip:
  assumes "ToLower pre = execURLPrefix"
    and "cmd \<noteq> []"
    and "never_splits splitter (False, dquote) cmd"
    and "\<not> fst (closure_state splitter (False, dquote) cmd)"
    and "never_splits splitter (closure_state splitter (False, dquote) cmd) path"
  shows "\<exists>h. parseExec (pre @ cmd @ colon # path) kind =
             Returns \<lparr>Kind = kind, Protocol = Protocol_Exec, Host = h, Path = path,
                       Environment = fmempty, Parameters = fmempty\<rparr> \<and>
           (\<forall>q mid. (q = squote \<or> q = dquote) \<and> cmd = q # mid @ [q] \<longrightarrow> h = mid) \<and>
           ((\<nexists>q mid. (q = squote \<or> q = dquote) \<and> cmd = q # mid @ [q]) \<longrightarrow> h = cmd)"
proof -
  have len: "length pre = length execURLPrefix"
    using assms(1) by (rule ToLower_length)
  have fields: "FieldsFunc (cmd @ colon # path) splitter (False, dquote) =
                  (if path = [] then [cmd] else [cmd, path])"
    using assms(2-5) by (rule FieldsFunc_command_path)
  have "parseExec (pre @ cmd @ colon # path) kind =
          Returns \<lparr>Kind = kind, Protocol = Protocol_Exec, Host = stripQuotes cmd, Path = path,
                    Environment = fmempty, Parameters = fmempty\<rparr>"
    using len fields by (simp add: parseExec_fields)
  moreover have "\<forall>q mid. (q = squote \<or> q = dquote) \<and> cmd = q # mid @ [q] \<longrightarrow>
                   stripQuotes cmd = mid"
    using stripQuotes_wrapped by blast
  moreover have "(\<nexists>q mid. (q = squote \<or> q = dquote) \<and> cmd = q # mid @ [q]) \<longrightarrow>
                   stripQuotes cmd = cmd"
    using stripQuotes_other by blast
  ultimately show ?thesis by blast
qed

text \<open>
  The theorem at \<open>eXec:"my:cmd":'/x'\<close>, where the command loses its quotes and the path
  keeps them, and at the spec's example \<open>exec:kubectl exec -it pod -- sh:/remote/path\<close>.
\<close>

theorem parseExec_roundtrip_witness:
  "parseExec (''eXec:'' @ [dquote] @ ''my:cmd'' @ [dquote] @ '':'' @ [squote] @ ''/x'' @ [squote])
     Kind_Synchronization =
     Returns \<lparr>Kind = Kind_Synchronization, Protocol = Protocol_Exec, Host = ''my:cmd'',
               Path = [squote] @ ''/x'' @ [squote],
               Environment = fmempty, Parameters = fmempty\<rparr> \<and>
   parseExec ''exec:kubectl exec -it pod -- sh:/remote/path'' Kind_Forwarding =
     Returns \<lparr>Kind = Kind_Forwarding, Protocol = Protocol_Exec,
               Host = ''kubectl exec -it pod -- sh'', Path = ''/remote/path'',
               Environment = fmempty, Parameters = fmempty\<rparr>"
proof -
  let ?c1 = "[dquote] @ ''my:cmd'' @ [dquote]"
  let ?p1 = "[squote] @ ''/x'' @ [squote]"
  have a1: "ToLower ''eXec:'' = execURLPrefix"
    by (simp add: ToLower_def toLowerByte_def execURLPrefix_def)
  have a2: "?c1 \<noteq> []" by simp
  have a3: "never_splits splitter (False, dquote) ?c1" by (simp add: splitter_def)
  have a4: "\<not> fst (closure_state splitter (False, dquote) ?c1)" by (simp add: splitter_def)
  have a5: "never_splits splitter (closure_state splitter (False, dquote) ?c1) ?p1"
    by (simp add: splitter_def)
  let ?c2 = "''kubectl exec -it pod -- sh''"
  let ?p2 = "''/remote/path''"
  have b1: "ToLower ''exec:'' = execURLPrefix"
    by (simp add: ToLower_def toLowerByte_def execURLPrefix_def)
  have b2: "?c2 \<noteq> []" by simp
  have b3: "never_splits splitter (False, dquote) ?c2" by (simp add: splitter_def)
  have b4: "\<not> fst (closure_state splitter (False, dquote) ?c2)" by (simp add: splitter_def)
  have b5: "never_splits splitter (closure_state splitter (False, dquote) ?c2) ?p2"
    by (simp add: splitter_def)
  have w: "?c1 = dquote # ''my:cmd'' @ [dquote]" by simp
  have n: "\<nexists>q mid. (q = squote \<or> q = dquote) \<and> ?c2 = q # mid @ [q]"
  proof (intro notI, elim exE conjE)
    fix q mid
    assume q: "q = squote \<or> q = dquote" and eq: "?c2 = q # mid @ [q]"
    from eq have "hd ?c2 = q" by (simp only: list.sel)
    then have "q = CHR ''k''" by simp
    with q show False by auto
  qed
  have r1: "parseExec (''eXec:'' @ ?c1 @ colon # ?p1) Kind_Synchronization =
     Returns \<lparr>Kind = Kind_Synchronization, Protocol = Protocol_Exec, Host = ''my:cmd'',
               Path = ?p1, Environment = fmempty, Parameters = fmempty\<rparr>"
    using parseExec_roundtrip [OF a1 a2 a3 a4 a5, of Kind_Synchronization]
  proof (elim exE conjE)
    fix h
    assume r: "parseExec (''eXec:'' @ ?c1 @ colon # ?p1) Kind_Synchronization =
        Returns \<lparr>Kind = Kind_Synchronization, Protocol = Protocol_Exec, Host = h,
                  Path = ?p1, Environment = fmempty, Parameters = fmempty\<rparr>"
      and wq: "\<forall>q mid. (q = squote \<or> q = dquote) \<and> ?c1 = q # mid @ [q] \<longrightarrow> h = mid"
    have "h = ''my:cmd''"
      using wq [rule_format, of dquote "''my:cmd''"] w by simp
    with r show ?thesis by simp
  qed
  have r2: "parseExec (''exec:'' @ ?c2 @ colon # ?p2) Kind_Forwarding =
     Returns \<lparr>Kind = Kind_Forwarding, Protocol = Protocol_Exec, Host = ?c2,
               Path = ?p2, Environment = fmempty, Parameters = fmempty\<rparr>"
    using parseExec_roundtrip [OF b1 b2 b3 b4 b5, of Kind_Forwarding]
  proof (elim exE conjE)
    fix h
    assume r: "parseExec (''exec:'' @ ?c2 @ colon # ?p2) Kind_Forwarding =
        Returns \<lparr>Kind = Kind_Forwarding, Protocol = Protocol_Exec, Host = h,
                  Path = ?p2, Environment = fmempty, Parameters = fmempty\<rparr>"
      and nq: "(\<nexists>q mid. (q = squote \<or> q = dquote) \<and> ?c2 = q # mid @ [q]) \<longrightarrow> h = ?c2"
    from nq n have "h = ?c2" by (rule mp)
    with r show ?thesis by simp
  qed
  from r1 r2 show ?thesis by simp
qed

lemma FieldsFunc_leading_colon:
  "FieldsFunc (colon # s) splitter (False, q) = FieldsFunc s splitter (False, q)"
  by (simp add: FieldsFunc_def splitter_def)

lemma FieldsFunc_trailing_colon:
  assumes "\<not> fst (closure_state splitter st s)"
  shows "FieldsFunc (s @ [colon]) splitter st = FieldsFunc s splitter st"
  using FieldsFunc_unquoted_colon [OF assms, of "[]"] by (simp add: FieldsFunc_Nil)

lemma FieldsFunc_adjacent_colons:
  assumes "\<not> fst (closure_state splitter st a)"
  shows "FieldsFunc (a @ colon # colon # b) splitter st = FieldsFunc (a @ colon # b) splitter st"
proof -
  obtain u q where st': "closure_state splitter st a = (u, q)"
    by (cases "closure_state splitter st a")
  with assms have u: "\<not> u" by simp
  have "FieldsFunc (colon # b) splitter (False, q) = FieldsFunc b splitter (False, q)"
    by (rule FieldsFunc_leading_colon)
  then show ?thesis
    using FieldsFunc_unquoted_colon [OF assms, of "colon # b"]
          FieldsFunc_unquoted_colon [OF assms, of b] st' u
    by simp
qed

lemma parseExec_empty_command:
  assumes "p \<noteq> []" and "colon \<notin> set p" and "dquote \<notin> set p" and "squote \<notin> set p"
  shows "parseExec (''exec::'' @ p) kind =
           Returns \<lparr>Kind = kind, Protocol = Protocol_Exec, Host = p, Path = [],
                     Environment = fmempty, Parameters = fmempty\<rparr>"
proof -
  have "FieldsFunc (colon # p) splitter (False, dquote) = FieldsFunc p splitter (False, dquote)"
    by (rule FieldsFunc_leading_colon)
  moreover have "FieldsFunc p splitter (False, dquote) = [p]"
    using never_splits_no_colon [OF assms(2)] assms(1) by (rule FieldsFunc_single)
  moreover have "stripQuotes p = p"
    using assms(3,4) by (rule stripQuotes_plain)
  ultimately show ?thesis
    by (simp add: parseExec_fields execURLPrefix_def)
qed

text \<open>
  Claim C9. The splitter returns no empty field: a colon at the start of the remainder,
  a colon at its end and the second of two adjacent colons (all outside quotes) add
  nothing to the fields. So for a non-empty \<open>p\<close> without colon or quote character,
  \<open>exec::p\<close> parses to the command \<open>p\<close> and an empty path.
\<close>

theorem splitter_drops_empty_fields:
  "[] \<notin> set (FieldsFunc s splitter st) \<and>
   FieldsFunc (colon # s) splitter (False, dquote) = FieldsFunc s splitter (False, dquote) \<and>
   (\<not> fst (closure_state splitter (False, dquote) s) \<longrightarrow>
      FieldsFunc (s @ [colon]) splitter (False, dquote) = FieldsFunc s splitter (False, dquote)) \<and>
   (\<not> fst (closure_state splitter (False, dquote) a) \<longrightarrow>
      FieldsFunc (a @ colon # colon # b) splitter (False, dquote) =
        FieldsFunc (a @ colon # b) splitter (False, dquote)) \<and>
   (p \<noteq> [] \<and> colon \<notin> set p \<and> dquote \<notin> set p \<and> squote \<notin> set p \<longrightarrow>
      parseExec (''exec::'' @ p) kind =
        Returns \<lparr>Kind = kind, Protocol = Protocol_Exec, Host = p, Path = [],
                  Environment = fmempty, Parameters = fmempty\<rparr>)"
proof (intro conjI impI)
  show "[] \<notin> set (FieldsFunc s splitter st)"
    by (simp add: FieldsFunc_def FieldsFunc_loop_no_empty)
  show "FieldsFunc (colon # s) splitter (False, dquote) = FieldsFunc s splitter (False, dquote)"
    by (rule FieldsFunc_leading_colon)
  show "FieldsFunc (s @ [colon]) splitter (False, dquote) = FieldsFunc s splitter (False, dquote)"
    if "\<not> fst (closure_state splitter (False, dquote) s)"
    using that by (rule FieldsFunc_trailing_colon)
  show "FieldsFunc (a @ colon # colon # b) splitter (False, dquote) =
          FieldsFunc (a @ colon # b) splitter (False, dquote)"
    if "\<not> fst (closure_state splitter (False, dquote) a)"
    using that by (rule FieldsFunc_adjacent_colons)
  show "parseExec (''exec::'' @ p) kind =
          Returns \<lparr>Kind = kind, Protocol = Protocol_Exec, Host = p, Path = [],
                    Environment = fmempty, Parameters = fmempty\<rparr>"
    if "p \<noteq> [] \<and> colon \<notin> set p \<and> dquote \<notin> set p \<and> squote \<notin> set p"
    using that by (simp add: parseExec_empty_command del: append.simps)
qed

text \<open>
  The theorem at \<open>a::b:\<close>, which has the fields of \<open>a:b\<close>, and at \<open>exec::/srv/data\<close>.
\<close>

theorem splitter_drops_empty_fields_witness:
  "FieldsFunc ''a::b:'' splitter (False, dquote) = [''a'', ''b''] \<and>
   FieldsFunc ''a:b'' splitter (False, dquote) = [''a'', ''b''] \<and>
   parseExec ''exec::/srv/data'' Kind_Synchronization =
     Returns \<lparr>Kind = Kind_Synchronization, Protocol = Protocol_Exec, Host = ''/srv/data'',
               Path = [], Environment = fmempty, Parameters = fmempty\<rparr>"
proof -
  have t: "\<not> fst (closure_state splitter (False, dquote) ''a::b'')" by (simp add: splitter_def)
  have a: "\<not> fst (closure_state splitter (False, dquote) ''a'')" by (simp add: splitter_def)
  have p: "''/srv/data'' \<noteq> [] \<and> colon \<notin> set ''/srv/data'' \<and> dquote \<notin> set ''/srv/data'' \<and>
           squote \<notin> set ''/srv/data''" by simp
  have e: "FieldsFunc ''a:b'' splitter (False, dquote) = [''a'', ''b'']"
    by (simp add: FieldsFunc_def splitter_def)
  from splitter_drops_empty_fields
         [of "''a::b''" "(False, dquote)" "''a''" "''b''" "''/srv/data''" Kind_Synchronization]
       t a p e
  show ?thesis by simp
qed

section \<open>Properties of the exec transport\<close>

subsection \<open>Substring search and splitting\<close>

lemma HasPrefix_iff: "HasPrefix s p \<longleftrightarrow> (\<exists>rest. s = p @ rest)"
proof
  assume "HasPrefix s p"
  then have "s = p @ drop (length p) s"
    by (metis HasPrefix_def append_take_drop_id)
  then show "\<exists>rest. s = p @ rest" ..
next
  assume "\<exists>rest. s = p @ rest"
  then show "HasPrefix s p" by (auto simp: HasPrefix_def)
qed

lemma Index_lower: "- 1 \<le> Index s sub"
  by (induction s) (auto simp: Let_def)

lemma Index_first:
  assumes "s = pre @ sub @ rest"
    and "\<forall>j<length pre. \<not> HasPrefix (drop j s) sub"
  shows "Index s sub = int (length pre)"
  using assms
proof (induction pre arbitrary: s)
  case Nil
  then have "HasPrefix s sub" by (simp add: HasPrefix_iff)
  then show ?case by (cases s) (auto simp: HasPrefix_def)
next
  case (Cons c pre)
  let ?s' = "pre @ sub @ rest"
  have s: "s = c # ?s'" using Cons.prems(1) by simp
  have "\<not> HasPrefix (drop 0 s) sub" using Cons.prems(2) by blast
  then have no: "\<not> HasPrefix (c # ?s') sub" using s by simp
  have "\<forall>j<length pre. \<not> HasPrefix (drop j ?s') sub"
  proof (intro allI impI)
    fix j assume "j < length pre"
    then have "\<not> HasPrefix (drop (Suc j) s) sub" using Cons.prems(2) by auto
    then show "\<not> HasPrefix (drop j ?s') sub" using s by simp
  qed
  then have "Index ?s' sub = int (length pre)" by (intro Cons.IH) simp
  then show ?case using s no by (simp add: Let_def)
qed

lemma Index_found:
  assumes "0 \<le> Index s sub"
  shows "\<exists>pre rest. s = pre @ sub @ rest \<and> Index s sub = int (length pre) \<and>
           (\<forall>j<length pre. \<not> HasPrefix (drop j s) sub)"
  using assms
proof (induction s)
  case Nil
  then have "sub = []" by (simp split: if_splits)
  then show ?case by simp
next
  case (Cons c s)
  show ?case
  proof (cases "HasPrefix (c # s) sub")
    case True
    then obtain rest where "c # s = sub @ rest" using HasPrefix_iff by blast
    moreover have "Index (c # s) sub = 0" using True by simp
    ultimately have "c # s = [] @ sub @ rest \<and> Index (c # s) sub = int (length ([]::string)) \<and>
               (\<forall>j<length ([]::string). \<not> HasPrefix (drop j (c # s)) sub)"
      by simp
    then show ?thesis by blast
  next
    case False
    then have nn: "0 \<le> Index s sub" and eq: "Index (c # s) sub = Index s sub + 1"
      using Cons.prems by (auto simp: Let_def split: if_splits)
    from Cons.IH [OF nn] obtain pre rest where
      p: "s = pre @ sub @ rest" "Index s sub = int (length pre)"
         "\<forall>j<length pre. \<not> HasPrefix (drop j s) sub"
      by blast
    have "\<forall>j<length (c # pre). \<not> HasPrefix (drop j (c # s)) sub"
    proof (intro allI impI)
      fix j assume j: "j < length (c # pre)"
      show "\<not> HasPrefix (drop j (c # s)) sub"
      proof (cases j)
        case 0
        then show ?thesis using False by simp
      next
        case (Suc i)
        then show ?thesis using j p(3) by simp
      qed
    qed
    then have "c # s = (c # pre) @ sub @ rest \<and> Index (c # s) sub = int (length (c # pre)) \<and>
               (\<forall>j<length (c # pre). \<not> HasPrefix (drop j (c # s)) sub)"
      using p eq by simp
    then show ?thesis by blast
  qed
qed

lemma Index_absent:
  assumes "\<nexists>pre rest. s = pre @ sub @ rest"
  shows "Index s sub = - 1"
proof -
  have "\<not> 0 \<le> Index s sub"
    using Index_found [of s sub] assms by blast
  then show ?thesis using Index_lower [of s sub] by simp
qed

lemma Index_occurs: "s = pre @ sub @ rest \<Longrightarrow> 0 \<le> Index s sub"
proof (induction pre arbitrary: s)
  case Nil
  then have "HasPrefix s sub" by (simp add: HasPrefix_iff)
  then show ?case by (cases s) (auto simp: HasPrefix_def)
next
  case (Cons c pre)
  then have "0 \<le> Index (pre @ sub @ rest) sub" by simp
  then show ?case using Cons.prems by (simp add: Let_def)
qed

lemma Contains_iff: "Contains s sub \<longleftrightarrow> (\<exists>pre rest. s = pre @ sub @ rest)"
proof
  assume "Contains s sub"
  then show "\<exists>pre rest. s = pre @ sub @ rest"
    using Index_found [of s sub] by (auto simp: Contains_def)
next
  assume "\<exists>pre rest. s = pre @ sub @ rest"
  then show "Contains s sub"
    using Index_occurs by (auto simp: Contains_def)
qed

subsection \<open>Splitting at a byte\<close>

lemma Split_loop_no_sep:
  "sep \<notin> set cur \<Longrightarrow> x \<in> set (Split_loop sep cur s) \<Longrightarrow> sep \<notin> set x"
proof (induction s arbitrary: cur)
  case Nil
  then show ?case by simp
next
  case (Cons c s)
  show ?case
  proof (cases "c = sep")
    case True
    with Cons.prems have "x = cur \<or> x \<in> set (Split_loop sep [] s)" by simp
    then show ?thesis
      using Cons.prems(1) Cons.IH [of "[]"] by auto
  next
    case False
    with Cons.prems have "x \<in> set (Split_loop sep (cur @ [c]) s)" by simp
    moreover have "sep \<notin> set (cur @ [c])" using False Cons.prems(1) by simp
    ultimately show ?thesis by (rule Cons.IH [rotated])
  qed
qed

lemma Split_loop_join:
  "concat (map (\<lambda>x. x @ [sep]) (Split_loop sep cur s)) = cur @ s @ [sep]"
  by (induction s arbitrary: cur) auto

lemma Split_pieces: "\<forall>x\<in>set (Split s sep). sep \<notin> set x"
  using Split_loop_no_sep [of sep "[]" _ s] by (simp add: Split_def)

lemma Split_join: "concat (map (\<lambda>x. x @ [sep]) (Split s sep)) = s @ [sep]"
  by (simp add: Split_def Split_loop_join)

lemma Split_loop_nonempty: "Split_loop sep cur s \<noteq> []"
  by (induction s arbitrary: cur) auto

lemma Split_nonempty: "Split s sep \<noteq> []"
  by (simp add: Split_def Split_loop_nonempty)

subsection \<open>The transport's methods\<close>

lemma firstSplitIndicator_nonempty: "firstSplitIndicator goos \<noteq> []"
  by (simp add: firstSplitIndicator_def)

lemma Command_unsupported:
  "\<not> Contains given (BaseName amb) \<Longrightarrow>
     Command amb t given = Fails (New ''transport does not support this command'')"
  by (simp add: Command_def)

lemma Command_stored:
  assumes "Contains given (BaseName amb)"
  shows "Command amb t given =
     (let indicator = firstSplitIndicator (GOOS amb); index = Index (command t) indicator
      in if index \<ge> 0 then
           Returns \<lparr>Name = take (nat (index + int (length indicator) - 1)) (command t),
                     Args = Split (drop (nat (index + int (length indicator))) (command t)) space,
                     SysProcAttr = ProcessAttributes amb, Env = Environ amb\<rparr>
         else Fails (New ''unable to identify kubectl invocation''))"
proof -
  have "\<And>x xs. length (x # Split xs space) > 1"
    using Split_nonempty by (simp add: Suc_lessI)
  then show ?thesis
    using assms by (simp add: Command_def Let_def)
qed

lemma Command_at_marker:
  assumes "Contains given (BaseName amb)"
    and "command t = pre @ firstSplitIndicator (GOOS amb) @ rest"
    and "\<forall>j<length pre. \<not> HasPrefix (drop j (command t)) (firstSplitIndicator (GOOS amb))"
  shows "Command amb t given =
           Returns \<lparr>Name = pre @ butlast (firstSplitIndicator (GOOS amb)),
                     Args = Split rest space,
                     SysProcAttr = ProcessAttributes amb, Env = Environ amb\<rparr>"
proof -
  let ?ind = "firstSplitIndicator (GOOS amb)"
  have i: "Index (command t) ?ind = int (length pre)"
    using assms(2,3) by (rule Index_first)
  have ne: "?ind \<noteq> []" by (rule firstSplitIndicator_nonempty)
  then have n: "nat (int (length pre) + int (length ?ind) - 1) = length pre + (length ?ind - 1)"
    by (cases ?ind) auto
  have "take (length pre + (length ?ind - 1)) (pre @ ?ind @ rest) = pre @ butlast ?ind"
    using ne by (simp add: butlast_conv_take)
  moreover have "drop (nat (int (length pre) + int (length ?ind))) (pre @ ?ind @ rest) = rest"
    by (simp add: nat_add_distrib)
  ultimately show ?thesis
    using Command_stored [OF assms(1), of t] i n assms(2) by (simp add: Let_def)
qed

lemma Command_no_marker:
  assumes "Contains given (BaseName amb)"
    and "\<nexists>pre rest. command t = pre @ firstSplitIndicator (GOOS amb) @ rest"
  shows "Command amb t given = Fails (New ''unable to identify kubectl invocation'')"
  using Command_stored [OF assms(1), of t] Index_absent [OF assms(2)] by (simp add: Let_def)

lemma Command_ignores_given:
  assumes "Contains given (BaseName amb)" and "Contains given' (BaseName amb)"
  shows "Command amb t given = Command amb t given'"
  using Command_stored [OF assms(1), of t] Command_stored [OF assms(2), of t] by simp

text \<open>
  Claim C4. \<open>Command\<close> fails with "transport does not support this command" on every
  string that does not contain the agent's base name. On a string that contains it, the
  string plays no further part: any two such strings give the same result, which is
  built from the command stored in the transport.
\<close>

theorem Command_only_launches_agent:
  "(\<not> Contains given (BaseName amb) \<longrightarrow>
      Command amb t given = Fails (New ''transport does not support this command'')) \<and>
   (Contains given (BaseName amb) \<and> Contains given' (BaseName amb) \<longrightarrow>
      Command amb t given = Command amb t given') \<and>
   (Contains given (BaseName amb) \<longrightarrow>
      Command amb t given =
        (let indicator = firstSplitIndicator (GOOS amb); index = Index (command t) indicator
         in if index \<ge> 0 then
              Returns \<lparr>Name = take (nat (index + int (length indicator) - 1)) (command t),
                        Args = Split (drop (nat (index + int (length indicator))) (command t)) space,
                        SysProcAttr = ProcessAttributes amb, Env = Environ amb\<rparr>
            else Fails (New ''unable to identify kubectl invocation''))) \<and>
   (Contains given (BaseName amb) \<longleftrightarrow> (\<exists>pre rest. given = pre @ BaseName amb @ rest))"
proof (intro conjI impI)
  show "Command amb t given = Fails (New ''transport does not support this command'')"
    if "\<not> Contains given (BaseName amb)"
    using that by (rule Command_unsupported)
  show "Command amb t given = Command amb t given'"
    if "Contains given (BaseName amb) \<and> Contains given' (BaseName amb)"
    using that Command_ignores_given by blast
  show "Command amb t given =
        (let indicator = firstSplitIndicator (GOOS amb); index = Index (command t) indicator
         in if index \<ge> 0 then
              Returns \<lparr>Name = take (nat (index + int (length indicator) - 1)) (command t),
                        Args = Split (drop (nat (index + int (length indicator))) (command t)) space,
                        SysProcAttr = ProcessAttributes amb, Env = Environ amb\<rparr>
            else Fails (New ''unable to identify kubectl invocation''))"
    if "Contains given (BaseName amb)"
    using that by (rule Command_stored)
  show "Contains given (BaseName amb) \<longleftrightarrow> (\<exists>pre rest. given = pre @ BaseName amb @ rest)"
    by (rule Contains_iff)
qed

text \<open>
  The theorem with the base name \<open>mutagen-agent\<close> and the stored command
  \<open>/usr/bin/kubectl exec pod\<close>: \<open>ls -l\<close> is refused, and two different agent command lines
  give the same process.
\<close>

theorem Command_only_launches_agent_witness:
  "\<not> Contains ''ls -l'' ''mutagen-agent'' \<and>
   Command \<lparr>BaseName = ''mutagen-agent'', GOOS = ''linux'', ProcessAttributes = True,
            Environ = [''HOME=/root'']\<rparr>
     \<lparr>command = ''/usr/bin/kubectl exec pod'', prompter = []\<rparr> ''ls -l'' =
     Fails (New ''transport does not support this command'') \<and>
   Contains ''mutagen-agent synchronizer'' ''mutagen-agent'' \<and>
   Contains ''.bin/mutagen-agent version'' ''mutagen-agent'' \<and>
   Command \<lparr>BaseName = ''mutagen-agent'', GOOS = ''linux'', ProcessAttributes = True,
            Environ = [''HOME=/root'']\<rparr>
     \<lparr>command = ''/usr/bin/kubectl exec pod'', prompter = []\<rparr> ''mutagen-agent synchronizer'' =
   Command \<lparr>BaseName = ''mutagen-agent'', GOOS = ''linux'', ProcessAttributes = True,
            Environ = [''HOME=/root'']\<rparr>
     \<lparr>command = ''/usr/bin/kubectl exec pod'', prompter = []\<rparr> ''.bin/mutagen-agent version''"
proof -
  let ?amb = "\<lparr>BaseName = ''mutagen-agent'', GOOS = ''linux'', ProcessAttributes = True,
                Environ = [''HOME=/root'']\<rparr>"
  let ?t = "\<lparr>command = ''/usr/bin/kubectl exec pod'', prompter = []\<rparr>"
  have n: "\<not> Contains ''ls -l'' ''mutagen-agent''"
    by (simp add: Contains_def HasPrefix_def)
  have c1: "Contains ''mutagen-agent synchronizer'' ''mutagen-agent''"
    by (simp add: Contains_def HasPrefix_def)
  have c2: "Contains ''.bin/mutagen-agent version'' ''mutagen-agent''"
    by (simp add: Contains_def HasPrefix_def)
  have r1: "Command ?amb ?t ''ls -l'' = Fails (New ''transport does not support this command'')"
    using Command_only_launches_agent [of "''ls -l''" ?amb ?t] n by simp
  have r2: "Command ?amb ?t ''mutagen-agent synchronizer'' =
            Command ?amb ?t ''.bin/mutagen-agent version''"
    using Command_only_launches_agent
            [of "''mutagen-agent synchronizer''" ?amb ?t "''.bin/mutagen-agent version''"] c1 c2
    by simp
  show ?thesis using n c1 c2 r1 r2 by (intro conjI)
qed

text \<open>
  Claim C5. When \<open>Command\<close> is given an agent command line, it looks in the stored command
  for the marker: \<open>\kubectl.exe\<close> and a space on Windows, \<open>/kubectl\<close> and a space on any
  other system. At the first place where the marker occurs, the name of the process is
  everything before the marker followed by the marker without its last byte (the space),
  and the arguments are the pieces of what follows the marker, cut at every space (no
  piece holds a space, and the pieces joined by spaces give the remainder back). A stored
  command without the marker gives the error "unable to identify kubectl invocation".
\<close>

theorem Command_splits_at_kubectl:
  assumes "Contains given (BaseName amb)"
  shows "(\<forall>pre rest.
            command t = pre @ firstSplitIndicator (GOOS amb) @ rest \<and>
            (\<forall>j<length pre. \<not> HasPrefix (drop j (command t)) (firstSplitIndicator (GOOS amb))) \<longrightarrow>
            Command amb t given =
              Returns \<lparr>Name = pre @ butlast (firstSplitIndicator (GOOS amb)),
                        Args = Split rest space,
                        SysProcAttr = ProcessAttributes amb, Env = Environ amb\<rparr>) \<and>
         ((\<exists>pre rest. command t = pre @ firstSplitIndicator (GOOS amb) @ rest) \<longrightarrow>
            (\<exists>pre rest.
               command t = pre @ firstSplitIndicator (GOOS amb) @ rest \<and>
               Command amb t given =
                 Returns \<lparr>Name = pre @ butlast (firstSplitIndicator (GOOS amb)),
                           Args = Split rest space,
                           SysProcAttr = ProcessAttributes amb, Env = Environ amb\<rparr>)) \<and>
         ((\<nexists>pre rest. command t = pre @ firstSplitIndicator (GOOS amb) @ rest) \<longrightarrow>
            Command amb t given = Fails (New ''unable to identify kubectl invocation'')) \<and>
         firstSplitIndicator ''windows'' = backslash # ''kubectl.exe '' \<and>
         butlast (firstSplitIndicator ''windows'') = backslash # ''kubectl.exe'' \<and>
         (goos \<noteq> ''windows'' \<longrightarrow>
            firstSplitIndicator goos = ''/kubectl '' \<and>
            butlast (firstSplitIndicator goos) = ''/kubectl'') \<and>
         (\<forall>x\<in>set (Split r space). space \<notin> set x) \<and>
         concat (map (\<lambda>x. x @ [space]) (Split r space)) = r @ [space]"
proof -
  let ?ind = "firstSplitIndicator (GOOS amb)"
  have first: "\<forall>pre rest.
            command t = pre @ ?ind @ rest \<and>
            (\<forall>j<length pre. \<not> HasPrefix (drop j (command t)) ?ind) \<longrightarrow>
            Command amb t given =
              Returns \<lparr>Name = pre @ butlast ?ind, Args = Split rest space,
                        SysProcAttr = ProcessAttributes amb, Env = Environ amb\<rparr>"
    using Command_at_marker [OF assms] by blast
  have occurs: "(\<exists>pre rest. command t = pre @ ?ind @ rest) \<longrightarrow>
            (\<exists>pre rest.
               command t = pre @ ?ind @ rest \<and>
               Command amb t given =
                 Returns \<lparr>Name = pre @ butlast ?ind, Args = Split rest space,
                           SysProcAttr = ProcessAttributes amb, Env = Environ amb\<rparr>)"
  proof
    assume "\<exists>pre rest. command t = pre @ ?ind @ rest"
    then have "0 \<le> Index (command t) ?ind"
      using Index_occurs by blast
    then obtain pre rest where
      d: "command t = pre @ ?ind @ rest"
      and f: "\<forall>j<length pre. \<not> HasPrefix (drop j (command t)) ?ind"
      using Index_found [of "command t" ?ind] by blast
    have "Command amb t given =
            Returns \<lparr>Name = pre @ butlast ?ind, Args = Split rest space,
                      SysProcAttr = ProcessAttributes amb, Env = Environ amb\<rparr>"
      using assms d f by (rule Command_at_marker)
    with d show "\<exists>pre rest.
               command t = pre @ ?ind @ rest \<and>
               Command amb t given =
                 Returns \<lparr>Name = pre @ butlast ?ind, Args = Split rest space,
                           SysProcAttr = ProcessAttributes amb, Env = Environ amb\<rparr>"
      by blast
  qed
  have absent: "(\<nexists>pre rest. command t = pre @ ?ind @ rest) \<longrightarrow>
            Command amb t given = Fails (New ''unable to identify kubectl invocation'')"
    using Command_no_marker [OF assms] by blast
  have w: "firstSplitIndicator ''windows'' = backslash # ''kubectl.exe ''"
    and wb: "butlast (firstSplitIndicator ''windows'') = backslash # ''kubectl.exe''"
    by (simp_all add: firstSplitIndicator_def)
  have o: "goos \<noteq> ''windows'' \<longrightarrow>
            firstSplitIndicator goos = ''/kubectl '' \<and>
            butlast (firstSplitIndicator goos) = ''/kubectl''"
    by (simp add: firstSplitIndicator_def)
  have p: "\<forall>x\<in>set (Split r space). space \<notin> set x"
    by (rule Split_pieces)
  have j: "concat (map (\<lambda>x. x @ [space]) (Split r space)) = r @ [space]"
    by (rule Split_join)
  from first occurs absent w wb o p j show ?thesis
    by (intro conjI)
qed

lemma Index_is_first:
  assumes "s = pre @ sub @ rest" and "Index s sub = int (length pre)"
  shows "\<forall>j<length pre. \<not> HasPrefix (drop j s) sub"
proof -
  have "0 \<le> Index s sub" using assms(2) by simp
  then obtain pre' rest' where
    d: "s = pre' @ sub @ rest'" and i: "Index s sub = int (length pre')"
    and f: "\<forall>j<length pre'. \<not> HasPrefix (drop j s) sub"
    using Index_found [of s sub] by blast
  have "length pre' = length pre" using i assms(2) by simp
  then show ?thesis using f by simp
qed

text \<open>
  The theorem on a POSIX system at a stored command whose wrapper path holds a space, on
  Windows, and at a stored command without the marker.
\<close>

theorem Command_splits_at_kubectl_witness:
  "Command \<lparr>BaseName = ''mutagen-agent'', GOOS = ''linux'', ProcessAttributes = True,
            Environ = []\<rparr>
     \<lparr>command = ''/home/my user/kubectl exec -i pod -- agent'', prompter = []\<rparr>
     ''mutagen-agent'' =
     Returns \<lparr>Name = ''/home/my user/kubectl'', Args = [''exec'', ''-i'', ''pod'', ''--'', ''agent''],
               SysProcAttr = True, Env = []\<rparr> \<and>
   Command \<lparr>BaseName = ''mutagen-agent'', GOOS = ''windows'', ProcessAttributes = True,
            Environ = []\<rparr>
     \<lparr>command = ''C:'' @ [backslash] @ ''kubectl.exe exec pod'', prompter = []\<rparr>
     ''mutagen-agent'' =
     Returns \<lparr>Name = ''C:'' @ [backslash] @ ''kubectl.exe'', Args = [''exec'', ''pod''],
               SysProcAttr = True, Env = []\<rparr> \<and>
   Command \<lparr>BaseName = ''mutagen-agent'', GOOS = ''linux'', ProcessAttributes = True,
            Environ = []\<rparr>
     \<lparr>command = ''ssh host agent'', prompter = []\<rparr> ''mutagen-agent'' =
     Fails (New ''unable to identify kubectl invocation'')"
proof -
  let ?lin = "\<lparr>BaseName = ''mutagen-agent'', GOOS = ''linux'', ProcessAttributes = True,
                Environ = []\<rparr>"
  let ?win = "\<lparr>BaseName = ''mutagen-agent'', GOOS = ''windows'', ProcessAttributes = True,
                Environ = []\<rparr>"
  let ?t1 = "\<lparr>command = ''/home/my user/kubectl exec -i pod -- agent'', prompter = []\<rparr>"
  let ?t2 = "\<lparr>command = ''C:'' @ [backslash] @ ''kubectl.exe exec pod'', prompter = []\<rparr>"
  let ?t3 = "\<lparr>command = ''ssh host agent'', prompter = []\<rparr>"
  have c: "Contains ''mutagen-agent'' ''mutagen-agent''"
    by (simp add: Contains_def HasPrefix_def)
  have cl: "Contains ''mutagen-agent'' (BaseName ?lin)" using c by simp
  have cw: "Contains ''mutagen-agent'' (BaseName ?win)" using c by simp
  have d1: "command ?t1 = ''/home/my user'' @ firstSplitIndicator (GOOS ?lin) @ ''exec -i pod -- agent''"
    by (simp add: firstSplitIndicator_def)
  have i1: "Index (command ?t1) (firstSplitIndicator (GOOS ?lin)) = int (length ''/home/my user'')"
    by (simp add: firstSplitIndicator_def HasPrefix_def)
  have f1: "\<forall>j<length ''/home/my user''.
              \<not> HasPrefix (drop j (command ?t1)) (firstSplitIndicator (GOOS ?lin))"
    using d1 i1 by (rule Index_is_first)
  have d2: "command ?t2 = ''C:'' @ firstSplitIndicator (GOOS ?win) @ ''exec pod''"
    by (simp add: firstSplitIndicator_def)
  have i2: "Index (command ?t2) (firstSplitIndicator (GOOS ?win)) = int (length ''C:'')"
    by (simp add: firstSplitIndicator_def HasPrefix_def)
  have f2: "\<forall>j<length ''C:''.
              \<not> HasPrefix (drop j (command ?t2)) (firstSplitIndicator (GOOS ?win))"
    using d2 i2 by (rule Index_is_first)
  have i3: "Index (command ?t3) (firstSplitIndicator (GOOS ?lin)) = - 1"
    by (simp add: firstSplitIndicator_def HasPrefix_def)
  have a3: "\<nexists>pre rest. command ?t3 = pre @ firstSplitIndicator (GOOS ?lin) @ rest"
  proof
    assume "\<exists>pre rest. command ?t3 = pre @ firstSplitIndicator (GOOS ?lin) @ rest"
    then have "0 \<le> Index (command ?t3) (firstSplitIndicator (GOOS ?lin))"
      using Index_occurs by blast
    with i3 show False by simp
  qed
  have s1: "Split ''exec -i pod -- agent'' space = [''exec'', ''-i'', ''pod'', ''--'', ''agent'']"
    by (simp add: Split_def)
  have s2: "Split ''exec pod'' space = [''exec'', ''pod'']"
    by (simp add: Split_def)
  have r1: "Command ?lin ?t1 ''mutagen-agent'' =
     Returns \<lparr>Name = ''/home/my user'' @ butlast (firstSplitIndicator (GOOS ?lin)),
               Args = Split ''exec -i pod -- agent'' space,
               SysProcAttr = ProcessAttributes ?lin, Env = Environ ?lin\<rparr>"
    using Command_splits_at_kubectl [OF cl, of ?t1] d1 f1 by blast
  have r2: "Command ?win ?t2 ''mutagen-agent'' =
     Returns \<lparr>Name = ''C:'' @ butlast (firstSplitIndicator (GOOS ?win)),
               Args = Split ''exec pod'' space,
               SysProcAttr = ProcessAttributes ?win, Env = Environ ?win\<rparr>"
    using Command_splits_at_kubectl [OF cw, of ?t2] d2 f2 by blast
  have r3: "Command ?lin ?t3 ''mutagen-agent'' =
              Fails (New ''unable to identify kubectl invocation'')"
    using Command_splits_at_kubectl [OF cl, of ?t3] a3 by blast
  have "Command ?lin ?t1 ''mutagen-agent'' =
     Returns \<lparr>Name = ''/home/my user/kubectl'', Args = [''exec'', ''-i'', ''pod'', ''--'', ''agent''],
               SysProcAttr = True, Env = []\<rparr>"
    using r1 s1 by (simp add: firstSplitIndicator_def)
  moreover have "Command ?win ?t2 ''mutagen-agent'' =
     Returns \<lparr>Name = ''C:'' @ [backslash] @ ''kubectl.exe'', Args = [''exec'', ''pod''],
               SysProcAttr = True, Env = []\<rparr>"
    using r2 s2 by (simp add: firstSplitIndicator_def)
  ultimately show ?thesis using r3 by (intro conjI)
qed

text \<open>
  Claim C3. \<open>ClassifyError\<close> never asks for an installation: the first component of its
  result is false on every input. It tries four patterns in order and the first that
  matches decides: the two POSIX exit shapes give no switch of hypothesis and no error,
  the two Windows output patterns give a switch and no error; when none matches, the
  result is the error "unknown error condition encountered".
\<close>

theorem ClassifyError_patterns:
  "fst (ClassifyError process t processState errorOutput) = False \<and>
   (IsPOSIXShellInvalidCommand process processState \<longrightarrow>
      ClassifyError process t processState errorOutput = (False, False, None)) \<and>
   (\<not> IsPOSIXShellInvalidCommand process processState \<and>
    IsPOSIXShellCommandNotFound process processState \<longrightarrow>
      ClassifyError process t processState errorOutput = (False, False, None)) \<and>
   (\<not> IsPOSIXShellInvalidCommand process processState \<and>
    \<not> IsPOSIXShellCommandNotFound process processState \<and>
    OutputIsWindowsInvalidCommand process errorOutput \<longrightarrow>
      ClassifyError process t processState errorOutput = (False, True, None)) \<and>
   (\<not> IsPOSIXShellInvalidCommand process processState \<and>
    \<not> IsPOSIXShellCommandNotFound process processState \<and>
    \<not> OutputIsWindowsInvalidCommand process errorOutput \<and>
    OutputIsWindowsCommandNotFound process errorOutput \<longrightarrow>
      ClassifyError process t processState errorOutput = (False, True, None)) \<and>
   (\<not> IsPOSIXShellInvalidCommand process processState \<and>
    \<not> IsPOSIXShellCommandNotFound process processState \<and>
    \<not> OutputIsWindowsInvalidCommand process errorOutput \<and>
    \<not> OutputIsWindowsCommandNotFound process errorOutput \<longrightarrow>
      ClassifyError process t processState errorOutput =
        (False, False, Some (New ''unknown error condition encountered'')))"
  by (simp add: ClassifyError_def)

text \<open>
  The theorem with exit codes as process states (126 for an invalid command, 127 for a
  command not found) and two fixed outputs as the Windows patterns: one input for each of
  the five outcomes, and one where a POSIX pattern and a Windows pattern both match.
\<close>

theorem ClassifyError_patterns_witness:
  "ClassifyError
     \<lparr>IsPOSIXShellInvalidCommand = (\<lambda>c. c = (126::nat)),
      IsPOSIXShellCommandNotFound = (\<lambda>c. c = 127),
      OutputIsWindowsInvalidCommand = (\<lambda>s. s = ''invalid''),
      OutputIsWindowsCommandNotFound = (\<lambda>s. s = ''not found'')\<rparr>
     \<lparr>command = ''c'', prompter = []\<rparr> 126 ''invalid'' = (False, False, None) \<and>
   ClassifyError
     \<lparr>IsPOSIXShellInvalidCommand = (\<lambda>c. c = (126::nat)),
      IsPOSIXShellCommandNotFound = (\<lambda>c. c = 127),
      OutputIsWindowsInvalidCommand = (\<lambda>s. s = ''invalid''),
      OutputIsWindowsCommandNotFound = (\<lambda>s. s = ''not found'')\<rparr>
     \<lparr>command = ''c'', prompter = []\<rparr> 127 [] = (False, False, None) \<and>
   ClassifyError
     \<lparr>IsPOSIXShellInvalidCommand = (\<lambda>c. c = (126::nat)),
      IsPOSIXShellCommandNotFound = (\<lambda>c. c = 127),
      OutputIsWindowsInvalidCommand = (\<lambda>s. s = ''invalid''),
      OutputIsWindowsCommandNotFound = (\<lambda>s. s = ''not found'')\<rparr>
     \<lparr>command = ''c'', prompter = []\<rparr> 1 ''invalid'' = (False, True, None) \<and>
   ClassifyError
     \<lparr>IsPOSIXShellInvalidCommand = (\<lambda>c. c = (126::nat)),
      IsPOSIXShellCommandNotFound = (\<lambda>c. c = 127),
      OutputIsWindowsInvalidCommand = (\<lambda>s. s = ''invalid''),
      OutputIsWindowsCommandNotFound = (\<lambda>s. s = ''not found'')\<rparr>
     \<lparr>command = ''c'', prompter = []\<rparr> 1 ''not found'' = (False, True, None) \<and>
   ClassifyError
     \<lparr>IsPOSIXShellInvalidCommand = (\<lambda>c. c = (126::nat)),
      IsPOSIXShellCommandNotFound = (\<lambda>c. c = 127),
      OutputIsWindowsInvalidCommand = (\<lambda>s. s = ''invalid''),
      OutputIsWindowsCommandNotFound = (\<lambda>s. s = ''not found'')\<rparr>
     \<lparr>command = ''c'', prompter = []\<rparr> 1 ''other'' =
     (False, False, Some (New ''unknown error condition encountered''))"
proof -
  let ?P = "\<lparr>IsPOSIXShellInvalidCommand = (\<lambda>c. c = (126::nat)),
      IsPOSIXShellCommandNotFound = (\<lambda>c. c = 127),
      OutputIsWindowsInvalidCommand = (\<lambda>s. s = ''invalid''),
      OutputIsWindowsCommandNotFound = (\<lambda>s. s = ''not found'')\<rparr>"
  let ?t = "\<lparr>command = ''c'', prompter = []\<rparr>"
  have 1: "ClassifyError ?P ?t 126 ''invalid'' = (False, False, None)"
    using ClassifyError_patterns [of ?P ?t 126 "''invalid''"] by simp
  have 2: "ClassifyError ?P ?t 127 [] = (False, False, None)"
    using ClassifyError_patterns [of ?P ?t 127 "[]"] by simp
  have 3: "ClassifyError ?P ?t 1 ''invalid'' = (False, True, None)"
    using ClassifyError_patterns [of ?P ?t 1 "''invalid''"] by simp
  have 4: "ClassifyError ?P ?t 1 ''not found'' = (False, True, None)"
    using ClassifyError_patterns [of ?P ?t 1 "''not found''"] by simp
  have 5: "ClassifyError ?P ?t 1 ''other'' =
             (False, False, Some (New ''unknown error condition encountered''))"
    using ClassifyError_patterns [of ?P ?t 1 "''other''"] by simp
  from 1 2 3 4 5 show ?thesis by (intro conjI)
qed

section \<open>Properties of the protocol handler and of the endpoint service\<close>

lemma len_map_positive: "0 < fcard (fmdom m) \<longleftrightarrow> m \<noteq> fmempty"
proof -
  have "fcard (fmdom m) = 0 \<longleftrightarrow> fmdom m = {||}" by (rule fcard_0_eq)
  also have "\<dots> \<longleftrightarrow> m = fmempty" by (metis fmdom_empty fmrestrict_fset_dom fmrestrict_fset_null)
  finally have z: "fcard (fmdom m) = 0 \<longleftrightarrow> m = fmempty" .
  have "0 < fcard (fmdom m) \<longleftrightarrow> fcard (fmdom m) \<noteq> 0" by (rule zero_less_iff_neq_zero)
  with z show ?thesis by (simp only:)
qed

lemma fmupd_not_empty: "fmupd k v m \<noteq> fmempty"
proof
  assume "fmupd k v m = fmempty"
  then have "fmlookup (fmupd k v m) k = fmlookup fmempty k" by simp
  then show False by simp
qed

lemma Connect_wrong_kind:
  "Kind url \<noteq> Kind_Synchronization \<Longrightarrow>
     Connect NewEndpoint selected url prompt session version configuration alpha =
       (Panics ''non-synchronization URL dispatched to synchronization protocol handler'', [])"
  by (simp add: Connect_def)

lemma Connect_wrong_protocol:
  "Kind url = Kind_Synchronization \<Longrightarrow> Protocol url \<noteq> Protocol_Exec \<Longrightarrow>
     Connect NewEndpoint selected url prompt session version configuration alpha =
       (Panics ''non-Exec URL dispatched to Exec protocol handler'', [])"
  by (simp add: Connect_def)

lemma Connect_environment:
  "Kind url = Kind_Synchronization \<Longrightarrow> Protocol url = Protocol_Exec \<Longrightarrow>
   Environment url \<noteq> fmempty \<Longrightarrow>
     Connect NewEndpoint selected url prompt session version configuration alpha =
       (Fails (New ''exec URL contains environment variables''), [])"
  by (simp add: Connect_def len_map_positive)

lemma Connect_parameters:
  "Kind url = Kind_Synchronization \<Longrightarrow> Protocol url = Protocol_Exec \<Longrightarrow>
   Environment url = fmempty \<Longrightarrow> Parameters url \<noteq> fmempty \<Longrightarrow>
     Connect NewEndpoint selected url prompt session version configuration alpha =
       (Fails (New ''exec URL contains internal parameters''), [])"
  using len_map_positive [of "Parameters url"] by (simp add: Connect_def)

lemma Connect_dials:
  "Kind url = Kind_Synchronization \<Longrightarrow> Protocol url = Protocol_Exec \<Longrightarrow>
   Environment url = fmempty \<Longrightarrow> Parameters url = fmempty \<Longrightarrow>
     snd (Connect NewEndpoint selected url prompt session version configuration alpha) =
       [Dialing \<lparr>command = Host url, prompter = prompt\<rparr> prompt]"
  by (simp add: Connect_def NewTransport_def Let_def split: select_case.split option.split)

text \<open>
  Claim C6. A URL of another kind than Synchronization, or of another protocol than Exec,
  makes \<open>Connect\<close> panic: it returns neither an error nor an endpoint. A URL of the
  right kind and protocol with a non-empty environment map is refused with "exec URL
  contains environment variables", and one with an empty environment map and a non-empty
  parameter map with "exec URL contains internal parameters". In all these cases no
  dialing goroutine has been started.
\<close>

theorem Connect_preconditions:
  "(Kind url \<noteq> Kind_Synchronization \<longrightarrow>
      Connect NewEndpoint selected url prompt session version configuration alpha =
        (Panics ''non-synchronization URL dispatched to synchronization protocol handler'', [])) \<and>
   (Kind url = Kind_Synchronization \<and> Protocol url \<noteq> Protocol_Exec \<longrightarrow>
      Connect NewEndpoint selected url prompt session version configuration alpha =
        (Panics ''non-Exec URL dispatched to Exec protocol handler'', [])) \<and>
   (Kind url \<noteq> Kind_Synchronization \<or> Protocol url \<noteq> Protocol_Exec \<longrightarrow>
      (\<exists>msg. Connect NewEndpoint selected url prompt session version configuration alpha =
         (Panics msg, []))) \<and>
   (Kind url = Kind_Synchronization \<and> Protocol url = Protocol_Exec \<and>
    Environment url \<noteq> fmempty \<longrightarrow>
      Connect NewEndpoint selected url prompt session version configuration alpha =
        (Fails (New ''exec URL contains environment variables''), [])) \<and>
   (Kind url = Kind_Synchronization \<and> Protocol url = Protocol_Exec \<and>
    Environment url = fmempty \<and> Parameters url \<noteq> fmempty \<longrightarrow>
      Connect NewEndpoint selected url prompt session version configuration alpha =
        (Fails (New ''exec URL contains internal parameters''), []))"
proof (intro conjI impI)
  show "Connect NewEndpoint selected url prompt session version configuration alpha =
        (Panics ''non-synchronization URL dispatched to synchronization protocol handler'', [])"
    if "Kind url \<noteq> Kind_Synchronization"
    using that by (rule Connect_wrong_kind)
  show "Connect NewEndpoint selected url prompt session version configuration alpha =
        (Panics ''non-Exec URL dispatched to Exec protocol handler'', [])"
    if "Kind url = Kind_Synchronization \<and> Protocol url \<noteq> Protocol_Exec"
  proof -
    from that have "Kind url = Kind_Synchronization" and "Protocol url \<noteq> Protocol_Exec"
      by simp_all
    then show ?thesis by (rule Connect_wrong_protocol)
  qed
  show "\<exists>msg. Connect NewEndpoint selected url prompt session version configuration alpha =
         (Panics msg, [])"
    if "Kind url \<noteq> Kind_Synchronization \<or> Protocol url \<noteq> Protocol_Exec"
  proof (cases "Kind url = Kind_Synchronization")
    case True
    with that have "Protocol url \<noteq> Protocol_Exec" by simp
    with True have "Connect NewEndpoint selected url prompt session version configuration alpha =
        (Panics ''non-Exec URL dispatched to Exec protocol handler'', [])"
      by (rule Connect_wrong_protocol)
    then show ?thesis ..
  next
    case False
    then have "Connect NewEndpoint selected url prompt session version configuration alpha =
        (Panics ''non-synchronization URL dispatched to synchronization protocol handler'', [])"
      by (rule Connect_wrong_kind)
    then show ?thesis ..
  qed
  show "Connect NewEndpoint selected url prompt session version configuration alpha =
        (Fails (New ''exec URL contains environment variables''), [])"
    if "Kind url = Kind_Synchronization \<and> Protocol url = Protocol_Exec \<and>
        Environment url \<noteq> fmempty"
  proof -
    from that have "Kind url = Kind_Synchronization" and "Protocol url = Protocol_Exec"
      and "Environment url \<noteq> fmempty"
      by simp_all
    then show ?thesis by (rule Connect_environment)
  qed
  show "Connect NewEndpoint selected url prompt session version configuration alpha =
        (Fails (New ''exec URL contains internal parameters''), [])"
    if "Kind url = Kind_Synchronization \<and> Protocol url = Protocol_Exec \<and>
        Environment url = fmempty \<and> Parameters url \<noteq> fmempty"
  proof -
    from that have "Kind url = Kind_Synchronization" and "Protocol url = Protocol_Exec"
      and "Environment url = fmempty" and "Parameters url \<noteq> fmempty"
      by simp_all
    then show ?thesis by (rule Connect_parameters)
  qed
qed

text \<open>
  The theorem at four URLs: a forwarding URL, a synchronization URL of the SSH protocol,
  an exec URL with one environment variable, and an exec URL with one parameter.
\<close>

theorem Connect_preconditions_witness:
  "Connect (\<lambda>(strm :: unit option) path session version configuration alpha. Returns ())
     ContextDone
     \<lparr>Kind = Kind_Forwarding, Protocol = Protocol_Exec, Host = ''c'', Path = ''/p'',
      Environment = fmempty, Parameters = fmempty\<rparr> [] () () () True =
     (Panics ''non-synchronization URL dispatched to synchronization protocol handler'', []) \<and>
   Connect (\<lambda>(strm :: unit option) path session version configuration alpha. Returns ())
     ContextDone
     \<lparr>Kind = Kind_Synchronization, Protocol = Protocol_SSH, Host = ''c'', Path = ''/p'',
      Environment = fmempty, Parameters = fmempty\<rparr> [] () () () True =
     (Panics ''non-Exec URL dispatched to Exec protocol handler'', []) \<and>
   Connect (\<lambda>(strm :: unit option) path session version configuration alpha. Returns ())
     ContextDone
     \<lparr>Kind = Kind_Synchronization, Protocol = Protocol_Exec, Host = ''c'', Path = ''/p'',
      Environment = fmupd ''K'' ''V'' fmempty, Parameters = fmempty\<rparr> [] () () () True =
     (Fails (New ''exec URL contains environment variables''), []) \<and>
   Connect (\<lambda>(strm :: unit option) path session version configuration alpha. Returns ())
     ContextDone
     \<lparr>Kind = Kind_Synchronization, Protocol = Protocol_Exec, Host = ''c'', Path = ''/p'',
      Environment = fmempty, Parameters = fmupd ''K'' ''V'' fmempty\<rparr> [] () () () True =
     (Fails (New ''exec URL contains internal parameters''), [])"
proof -
  let ?NE = "\<lambda>(strm :: unit option) (path :: string) (session :: unit) (version :: unit)
               (configuration :: unit) (alpha :: bool). (Returns () :: (error, unit) outcome)"
  let ?sel = "ContextDone :: unit select_case"
  let ?u1 = "\<lparr>Kind = Kind_Forwarding, Protocol = Protocol_Exec, Host = ''c'', Path = ''/p'',
      Environment = fmempty, Parameters = fmempty\<rparr>"
  let ?u2 = "\<lparr>Kind = Kind_Synchronization, Protocol = Protocol_SSH, Host = ''c'', Path = ''/p'',
      Environment = fmempty, Parameters = fmempty\<rparr>"
  let ?u3 = "\<lparr>Kind = Kind_Synchronization, Protocol = Protocol_Exec, Host = ''c'', Path = ''/p'',
      Environment = fmupd ''K'' ''V'' fmempty, Parameters = fmempty\<rparr>"
  let ?u4 = "\<lparr>Kind = Kind_Synchronization, Protocol = Protocol_Exec, Host = ''c'', Path = ''/p'',
      Environment = fmempty, Parameters = fmupd ''K'' ''V'' fmempty\<rparr>"
  have ne: "fmupd ''K'' ''V'' fmempty \<noteq> (fmempty :: (string, string) fmap)"
    by (rule fmupd_not_empty)
  have 1: "Connect ?NE ?sel ?u1 [] () () () True =
     (Panics ''non-synchronization URL dispatched to synchronization protocol handler'', [])"
    using Connect_preconditions [of ?u1 ?NE ?sel "[]" "()" "()" "()" True] by simp
  have 2: "Connect ?NE ?sel ?u2 [] () () () True =
     (Panics ''non-Exec URL dispatched to Exec protocol handler'', [])"
    using Connect_preconditions [of ?u2 ?NE ?sel "[]" "()" "()" "()" True] by simp
  have 3: "Connect ?NE ?sel ?u3 [] () () () True =
     (Fails (New ''exec URL contains environment variables''), [])"
    using Connect_preconditions [of ?u3 ?NE ?sel "[]" "()" "()" "()" True] ne by simp
  have 4: "Connect ?NE ?sel ?u4 [] () () () True =
     (Fails (New ''exec URL contains internal parameters''), [])"
    using Connect_preconditions [of ?u4 ?NE ?sel "[]" "()" "()" "()" True] ne by simp
  from 1 2 3 4 show ?thesis by (intro conjI)
qed

text \<open>
  Claim C10. \<open>NewTransport\<close> returns a transport for every command and prompter, the empty
  command included, and never an error. So \<open>Connect\<close> never leaves through its "unable to
  create exec transport" branch: that return, an error with this context and no goroutine
  started, is the outcome of \<open>Connect\<close> on no input.
\<close>

theorem NewTransport_always_succeeds:
  "NewTransport cmd prompt = Returns \<lparr>command = cmd, prompter = prompt\<rparr> \<and>
   NewTransport [] prompt = Returns \<lparr>command = [], prompter = prompt\<rparr> \<and>
   NewTransport cmd prompt \<noteq> Fails err \<and>
   Connect NewEndpoint selected url prompt session version configuration alpha \<noteq>
     (Fails (Wrapped ''unable to create exec transport'' err), [])"
proof -
  have "Connect NewEndpoint selected url prompt session version configuration alpha \<noteq>
     (Fails (Wrapped ''unable to create exec transport'' err), [])"
    by (simp add: Connect_def NewTransport_def Let_def split: select_case.split option.split)
  then show ?thesis by (simp add: NewTransport_def)
qed

subsection \<open>The serving loop\<close>

lemma Serve_loop_fails_at:
  assumes "accept k = Inl e" and "\<forall>j. n \<le> j \<and> j < k \<longrightarrow> (\<exists>c. accept j = Inr c)" and "n \<le> k"
  shows "Serve_loop server accept n served =
           Some (e, served @ map (\<lambda>j. serveConnection server (projr (accept j))) [n..<k])"
  using assms
proof (induction "k - n" arbitrary: n served)
  case 0
  then have "n = k" by simp
  then show ?case using "0.prems"(1) by (subst Serve_loop.simps) simp
next
  case (Suc d)
  then have lt: "n < k" by simp
  then obtain c where c: "accept n = Inr c" using Suc.prems(2) by auto
  have "Serve_loop server accept (Suc n) (served @ [serveConnection server c]) =
          Some (e, (served @ [serveConnection server c]) @
                   map (\<lambda>j. serveConnection server (projr (accept j))) [Suc n..<k])"
    using Suc.hyps(2) Suc.prems lt by (intro Suc.hyps(1)) auto
  moreover have "[n..<k] = n # [Suc n..<k]"
    using lt by (simp add: upt_conv_Cons)
  ultimately show ?case
    using c by (subst Serve_loop.simps) simp
qed

lemma Serve_loop_returns:
  assumes "Serve_loop server accept n served = Some r"
  shows "\<exists>k\<ge>n. \<exists>e. accept k = Inl e"
proof (rule Serve_loop.raw_induct
    [where P = "\<lambda>server accept n served r. \<exists>k\<ge>n. \<exists>e. accept k = Inl e", OF _ assms])
  fix loop :: "'a rpc_Server \<Rightarrow> (nat \<Rightarrow> error + 'b rpc_call) \<Rightarrow> nat \<Rightarrow>
               ('a, 'b) rpc_dispatch list \<Rightarrow> (error \<times> ('a, 'b) rpc_dispatch list) option"
    and server accept n served r
  assume IH: "\<And>server accept n served r.
                loop server accept n served = Some r \<Longrightarrow> \<exists>k\<ge>n. \<exists>e. accept k = Inl e"
    and eq: "(case accept n of Inl err \<Rightarrow> Some (err, served)
              | Inr call \<Rightarrow> loop server accept (Suc n) (served @ [serveConnection server call])) =
             Some r"
  show "\<exists>k\<ge>n. \<exists>e. accept k = Inl e"
  proof (cases "accept n")
    case (Inl e)
    then show ?thesis by blast
  next
    case (Inr c)
    with eq have "loop server accept (Suc n) (served @ [serveConnection server c]) = Some r"
      by simp
    then have "\<exists>k\<ge>Suc n. \<exists>e. accept k = Inl e" by (rule IH)
    then show ?thesis using Suc_leD by blast
  qed
qed

lemma Serve_loop_forever:
  assumes "\<forall>n. \<exists>c. accept n = Inr c"
  shows "Serve_loop server accept n served = None"
proof (cases "Serve_loop server accept n served")
  case None
  then show ?thesis .
next
  case (Some r)
  then obtain k e where "accept k = Inl e" using Serve_loop_returns by blast
  with assms show ?thesis by (metis sum.distinct(1))
qed

lemma serveConnection_table:
  "serveConnection
     (rpc_NewServer
        [endpointMethodScan \<mapsto> (e, endpoint_scan),
         endpointMethodTransmit \<mapsto> (e, endpoint_transmit),
         endpointMethodApply \<mapsto> (e, endpoint_apply),
         endpointMethodUpdate \<mapsto> (e, endpoint_update)]) call =
   (if call_method call = ''endpoint.Scan'' then Invoked (e, endpoint_scan) (call_stream call)
    else if call_method call = ''endpoint.Transmit''
      then Invoked (e, endpoint_transmit) (call_stream call)
    else if call_method call = ''endpoint.Apply''
      then Invoked (e, endpoint_apply) (call_stream call)
    else if call_method call = ''endpoint.Update''
      then Invoked (e, endpoint_update) (call_stream call)
    else Unbound (call_method call) (call_stream call))"
  by (simp add: serveConnection_def rpc_NewServer_def endpointMethodScan_def
      endpointMethodTransmit_def endpointMethodApply_def endpointMethodUpdate_def)

lemma ServeEndpoint_unfold:
  "ServeEndpoint Accept strm =
     (case Serve_loop
             (rpc_NewServer
                [endpointMethodScan \<mapsto>
                   (\<lparr>client = \<lparr>opener = \<lparr>transport = strm, role = Role_Server,
                                          config = \<lparr>AcceptBacklog = 100\<rparr>\<rparr>\<rparr>\<rparr>, endpoint_scan),
                 endpointMethodTransmit \<mapsto>
                   (\<lparr>client = \<lparr>opener = \<lparr>transport = strm, role = Role_Server,
                                          config = \<lparr>AcceptBacklog = 100\<rparr>\<rparr>\<rparr>\<rparr>, endpoint_transmit),
                 endpointMethodApply \<mapsto>
                   (\<lparr>client = \<lparr>opener = \<lparr>transport = strm, role = Role_Server,
                                          config = \<lparr>AcceptBacklog = 100\<rparr>\<rparr>\<rparr>\<rparr>, endpoint_apply),
                 endpointMethodUpdate \<mapsto>
                   (\<lparr>client = \<lparr>opener = \<lparr>transport = strm, role = Role_Server,
                                          config = \<lparr>AcceptBacklog = 100\<rparr>\<rparr>\<rparr>\<rparr>, endpoint_update)])
             (Accept \<lparr>transport = strm, role = Role_Server, config = \<lparr>AcceptBacklog = 100\<rparr>\<rparr>)
             0 [] of
        None \<Rightarrow> None
      | Some (err, served) \<Rightarrow> Some (Some (Wrapped ''error serving RPC requests'' err), served))"
  by (simp add: ServeEndpoint_def Serve_def Wrap_def Let_def muxado_Server_def
      rpc_NewClient_def newEndpoint_def endpointAcceptBacklog_def split: option.split)

lemma ServeEndpoint_accept_fails:
  assumes "Accept \<lparr>transport = strm, role = Role_Server, config = \<lparr>AcceptBacklog = 100\<rparr>\<rparr> k =
             Inl err"
    and "\<forall>j<k. \<exists>call.
           Accept \<lparr>transport = strm, role = Role_Server, config = \<lparr>AcceptBacklog = 100\<rparr>\<rparr> j =
             Inr call"
  shows "ServeEndpoint Accept strm =
     Some (Some (Wrapped ''error serving RPC requests'' err),
           map (\<lambda>j. let call = projr (Accept \<lparr>transport = strm, role = Role_Server,
                                              config = \<lparr>AcceptBacklog = 100\<rparr>\<rparr> j)
                    in if call_method call = ''endpoint.Scan''
                         then Invoked (\<lparr>client = \<lparr>opener = \<lparr>transport = strm, role = Role_Server,
                                config = \<lparr>AcceptBacklog = 100\<rparr>\<rparr>\<rparr>\<rparr>, endpoint_scan) (call_stream call)
                       else if call_method call = ''endpoint.Transmit''
                         then Invoked (\<lparr>client = \<lparr>opener = \<lparr>transport = strm, role = Role_Server,
                                config = \<lparr>AcceptBacklog = 100\<rparr>\<rparr>\<rparr>\<rparr>, endpoint_transmit) (call_stream call)
                       else if call_method call = ''endpoint.Apply''
                         then Invoked (\<lparr>client = \<lparr>opener = \<lparr>transport = strm, role = Role_Server,
                                config = \<lparr>AcceptBacklog = 100\<rparr>\<rparr>\<rparr>\<rparr>, endpoint_apply) (call_stream call)
                       else if call_method call = ''endpoint.Update''
                         then Invoked (\<lparr>client = \<lparr>opener = \<lparr>transport = strm, role = Role_Server,
                                config = \<lparr>AcceptBacklog = 100\<rparr>\<rparr>\<rparr>\<rparr>, endpoint_update) (call_stream call)
                       else Unbound (call_method call) (call_stream call))
               [0..<k])"
proof -
  let ?mux = "\<lparr>transport = strm, role = Role_Server, config = \<lparr>AcceptBacklog = 100\<rparr>\<rparr>"
  let ?e = "\<lparr>client = \<lparr>opener = ?mux\<rparr>\<rparr>"
  let ?server = "rpc_NewServer
                [endpointMethodScan \<mapsto> (?e, endpoint_scan),
                 endpointMethodTransmit \<mapsto> (?e, endpoint_transmit),
                 endpointMethodApply \<mapsto> (?e, endpoint_apply),
                 endpointMethodUpdate \<mapsto> (?e, endpoint_update)]"
  have "Serve_loop ?server (Accept ?mux) 0 [] =
          Some (err, [] @ map (\<lambda>j. serveConnection ?server (projr (Accept ?mux j))) [0..<k])"
    using assms by (intro Serve_loop_fails_at) auto
  then show ?thesis
    by (simp add: ServeEndpoint_unfold serveConnection_table Let_def)
qed

lemma ServeEndpoint_never_fails:
  assumes "\<forall>n. \<exists>call.
             Accept \<lparr>transport = strm, role = Role_Server, config = \<lparr>AcceptBacklog = 100\<rparr>\<rparr> n =
               Inr call"
  shows "ServeEndpoint Accept strm = None"
proof -
  let ?mux = "\<lparr>transport = strm, role = Role_Server, config = \<lparr>AcceptBacklog = 100\<rparr>\<rparr>"
  let ?e = "\<lparr>client = \<lparr>opener = ?mux\<rparr>\<rparr>"
  let ?server = "rpc_NewServer
                [endpointMethodScan \<mapsto> (?e, endpoint_scan),
                 endpointMethodTransmit \<mapsto> (?e, endpoint_transmit),
                 endpointMethodApply \<mapsto> (?e, endpoint_apply),
                 endpointMethodUpdate \<mapsto> (?e, endpoint_update)]"
  have "Serve_loop ?server (Accept ?mux) 0 [] = None"
    using assms by (rule Serve_loop_forever)
  then show ?thesis
    by (simp add: ServeEndpoint_unfold)
qed

text \<open>
  Claim C8. \<open>ServeEndpoint\<close> wraps the stream in a multiplexer of the Server role with an
  accept backlog of 100: it is on this multiplexer that it accepts, and that the
  endpoint's client opens. It serves the accepted calls through a table that binds
  \<open>endpoint.Scan\<close>, \<open>endpoint.Transmit\<close>, \<open>endpoint.Apply\<close> and \<open>endpoint.Update\<close> to the
  four methods of that one endpoint, and no other name: a call of one of the four is
  handed to its method, a call of any other name to none. When the multiplexer's accept
  fails for the first time, at its call number \<open>k\<close>, \<open>ServeEndpoint\<close> returns: the \<open>k\<close>
  calls accepted before have been dispatched, in order, and the result is that failure
  wrapped with "error serving RPC requests". It returns only so: with an accept that
  never fails it serves forever.
\<close>

theorem ServeEndpoint_serves_until_accept_fails:
  "(let mux = \<lparr>transport = strm, role = Role_Server, config = \<lparr>AcceptBacklog = 100\<rparr>\<rparr>;
        e = \<lparr>client = \<lparr>opener = mux\<rparr>\<rparr>;
        dispatch = (\<lambda>call.
          if call_method call = ''endpoint.Scan''
            then Invoked (e, endpoint_scan) (call_stream call)
          else if call_method call = ''endpoint.Transmit''
            then Invoked (e, endpoint_transmit) (call_stream call)
          else if call_method call = ''endpoint.Apply''
            then Invoked (e, endpoint_apply) (call_stream call)
          else if call_method call = ''endpoint.Update''
            then Invoked (e, endpoint_update) (call_stream call)
          else Unbound (call_method call) (call_stream call))
    in (\<forall>k err.
          Accept mux k = Inl err \<and> (\<forall>j<k. \<exists>call. Accept mux j = Inr call) \<longrightarrow>
          ServeEndpoint Accept strm =
            Some (Some (Wrapped ''error serving RPC requests'' err),
                  map (\<lambda>j. dispatch (projr (Accept mux j))) [0..<k])) \<and>
       (\<forall>err. Accept mux 0 = Inl err \<longrightarrow>
          ServeEndpoint Accept strm =
            Some (Some (Wrapped ''error serving RPC requests'' err), [])) \<and>
       ((\<forall>n. \<exists>call. Accept mux n = Inr call) \<longrightarrow> ServeEndpoint Accept strm = None))"
proof -
  let ?mux = "\<lparr>transport = strm, role = Role_Server, config = \<lparr>AcceptBacklog = 100\<rparr>\<rparr>"
  have fails: "ServeEndpoint Accept strm =
     Some (Some (Wrapped ''error serving RPC requests'' err),
           map (\<lambda>j. let call = projr (Accept ?mux j)
                    in if call_method call = ''endpoint.Scan''
                         then Invoked (\<lparr>client = \<lparr>opener = ?mux\<rparr>\<rparr>, endpoint_scan) (call_stream call)
                       else if call_method call = ''endpoint.Transmit''
                         then Invoked (\<lparr>client = \<lparr>opener = ?mux\<rparr>\<rparr>, endpoint_transmit) (call_stream call)
                       else if call_method call = ''endpoint.Apply''
                         then Invoked (\<lparr>client = \<lparr>opener = ?mux\<rparr>\<rparr>, endpoint_apply) (call_stream call)
                       else if call_method call = ''endpoint.Update''
                         then Invoked (\<lparr>client = \<lparr>opener = ?mux\<rparr>\<rparr>, endpoint_update) (call_stream call)
                       else Unbound (call_method call) (call_stream call))
               [0..<k])"
    if "Accept ?mux k = Inl err" and "\<forall>j<k. \<exists>call. Accept ?mux j = Inr call" for k err
    using that by (rule ServeEndpoint_accept_fails)
  have at_once: "ServeEndpoint Accept strm =
            Some (Some (Wrapped ''error serving RPC requests'' err), [])"
    if "Accept ?mux 0 = Inl err" for err
    using fails [of 0 err] that by simp
  have forever: "ServeEndpoint Accept strm = None"
    if "\<forall>n. \<exists>call. Accept ?mux n = Inr call"
    using that by (rule ServeEndpoint_never_fails)
  show ?thesis
    unfolding Let_def
  proof (intro conjI allI impI)
    fix k err
    assume "Accept ?mux k = Inl err \<and> (\<forall>j<k. \<exists>call. Accept ?mux j = Inr call)"
    then have "Accept ?mux k = Inl err" and "\<forall>j<k. \<exists>call. Accept ?mux j = Inr call"
      by simp_all
    then show "ServeEndpoint Accept strm =
      Some (Some (Wrapped ''error serving RPC requests'' err),
            map (\<lambda>j. if call_method (projr (Accept ?mux j)) = ''endpoint.Scan''
                       then Invoked (\<lparr>client = \<lparr>opener = ?mux\<rparr>\<rparr>, endpoint_scan)
                              (call_stream (projr (Accept ?mux j)))
                     else if call_method (projr (Accept ?mux j)) = ''endpoint.Transmit''
                       then Invoked (\<lparr>client = \<lparr>opener = ?mux\<rparr>\<rparr>, endpoint_transmit)
                              (call_stream (projr (Accept ?mux j)))
                     else if call_method (projr (Accept ?mux j)) = ''endpoint.Apply''
                       then Invoked (\<lparr>client = \<lparr>opener = ?mux\<rparr>\<rparr>, endpoint_apply)
                              (call_stream (projr (Accept ?mux j)))
                     else if call_method (projr (Accept ?mux j)) = ''endpoint.Update''
                       then Invoked (\<lparr>client = \<lparr>opener = ?mux\<rparr>\<rparr>, endpoint_update)
                              (call_stream (projr (Accept ?mux j)))
                     else Unbound (call_method (projr (Accept ?mux j)))
                            (call_stream (projr (Accept ?mux j))))
              [0..<k])"
      using fails [of k err] by (simp only: Let_def)
  next
    fix err
    assume "Accept ?mux 0 = Inl err"
    then show "ServeEndpoint Accept strm =
                 Some (Some (Wrapped ''error serving RPC requests'' err), [])"
      by (rule at_once)
  next
    assume "\<forall>n. \<exists>call. Accept ?mux n = Inr call"
    then show "ServeEndpoint Accept strm = None"
      by (rule forever)
  qed
qed

text \<open>
  The theorem at a multiplexer that, when it is a server with a backlog of 100, accepts
  a call of \<open>endpoint.Scan\<close>, one of \<open>endpoint.Update\<close> and one of the unbound name
  \<open>endpoint.Delete\<close>, and then fails; and at a multiplexer whose first accept fails.
\<close>

theorem ServeEndpoint_serves_until_accept_fails_witness:
  "ServeEndpoint
     (\<lambda>mux n.
        if role mux = Role_Server \<and> AcceptBacklog (config mux) = 100 then
          (if n = 0 then Inr \<lparr>call_method = ''endpoint.Scan'', call_stream = (10::nat)\<rparr>
           else if n = 1 then Inr \<lparr>call_method = ''endpoint.Update'', call_stream = 11\<rparr>
           else if n = 2 then Inr \<lparr>call_method = ''endpoint.Delete'', call_stream = 12\<rparr>
           else Inl (New ''session closed''))
        else Inr \<lparr>call_method = [], call_stream = 0\<rparr>) () =
     Some (Some (Wrapped ''error serving RPC requests'' (New ''session closed'')),
           [Invoked (\<lparr>client = \<lparr>opener = \<lparr>transport = (), role = Role_Server,
                                            config = \<lparr>AcceptBacklog = 100\<rparr>\<rparr>\<rparr>\<rparr>, endpoint_scan) 10,
            Invoked (\<lparr>client = \<lparr>opener = \<lparr>transport = (), role = Role_Server,
                                            config = \<lparr>AcceptBacklog = 100\<rparr>\<rparr>\<rparr>\<rparr>, endpoint_update) 11,
            Unbound ''endpoint.Delete'' 12]) \<and>
   ServeEndpoint (\<lambda>mux n. (Inl (New ''EOF'') :: error + nat rpc_call)) () =
     (Some (Some (Wrapped ''error serving RPC requests'' (New ''EOF'')), []) ::
        (error option \<times> (unit, nat) rpc_dispatch list) option)"
proof -
  let ?A = "\<lambda>(mux :: unit muxado_Session) (n :: nat).
        if role mux = Role_Server \<and> AcceptBacklog (config mux) = 100 then
          (if n = 0 then Inr \<lparr>call_method = ''endpoint.Scan'', call_stream = (10::nat)\<rparr>
           else if n = 1 then Inr \<lparr>call_method = ''endpoint.Update'', call_stream = 11\<rparr>
           else if n = 2 then Inr \<lparr>call_method = ''endpoint.Delete'', call_stream = 12\<rparr>
           else (Inl (New ''session closed'') :: error + nat rpc_call))
        else Inr \<lparr>call_method = [], call_stream = 0\<rparr>"
  let ?B = "\<lambda>(mux :: unit muxado_Session) (n :: nat). (Inl (New ''EOF'') :: error + nat rpc_call)"
  let ?mux = "\<lparr>transport = (), role = Role_Server, config = \<lparr>AcceptBacklog = 100\<rparr>\<rparr>"
  have a: "?A ?mux 3 = Inl (New ''session closed'') \<and> (\<forall>j<3. \<exists>call. ?A ?mux j = Inr call)"
    by simp
  have u: "[0..<3] = [0, 1, 2]"
    by (simp add: numeral_3_eq_3)
  have 1: "ServeEndpoint ?A () =
     Some (Some (Wrapped ''error serving RPC requests'' (New ''session closed'')),
           [Invoked (\<lparr>client = \<lparr>opener = ?mux\<rparr>\<rparr>, endpoint_scan) 10,
            Invoked (\<lparr>client = \<lparr>opener = ?mux\<rparr>\<rparr>, endpoint_update) 11,
            Unbound ''endpoint.Delete'' 12])"
    using ServeEndpoint_serves_until_accept_fails
            [of "()" ?A, unfolded Let_def, THEN conjunct1, rule_format,
             of 3 "New ''session closed''", OF a]
    by (simp add: u)
  have 2: "ServeEndpoint ?B () =
     (Some (Some (Wrapped ''error serving RPC requests'' (New ''EOF'')), []) ::
        (error option \<times> (unit, nat) rpc_dispatch list) option)"
    using ServeEndpoint_serves_until_accept_fails
            [of "()" ?B, unfolded Let_def, THEN conjunct2, THEN conjunct1, rule_format,
             of "New ''EOF''"]
    by simp
  from 1 2 show ?thesis by (intro conjI)
qed

end
